theory Spec2Isabelle
  imports Main
begin

section \<open>Ruby values, exceptions and the native provider\<close>

text \<open>
  The development embeds \<^verbatim>\<open>src/ruby/ext/grpc/rb_channel_credentials.c\<close>.
  A Ruby \<^verbatim>\<open>VALUE\<close> is a value of \<open>rb_value\<close>; \<open>RData i\<close> is the
  ChannelCredentials object stored at index \<open>i\<close> of the object heap, and
  \<open>RCallCredentials c\<close> is a CallCredentials object whose wrapped native pointer is \<open>c\<close>.
  A native pointer is a \<open>nat option\<close>: \<open>None\<close> is \<^verbatim>\<open>NULL\<close>.
\<close>

datatype rb_class =
  cNilClass | cFalseClass | cTrueClass | cInteger | cString | cSymbol | cProc
  | cArray | cHash | cClass | cException | cChannelCredentials | cCallCredentials

datatype exception_class =
  TypeError | ArgumentError | RuntimeError | NoMethodError
  | StandardError_subclass string
  | Exception_subclass string

datatype rb_value =
  Qnil | Qfalse | Qtrue
  | Fixnum int
  | RString string
  | RSymbol string
  | RProc nat
  | RArray "rb_value list"
  | RHash "(rb_value \<times> rb_value) list"
  | RClass rb_class
  | RException exception_class string
  | RData nat
  | RCallCredentials "nat option"

text \<open>
  A call into the Ruby runtime or the C library either returns, raises a Ruby exception
  (\<^verbatim>\<open>rb_raise\<close>, or an exception of a called method), or has no defined behaviour
  in C (a macro applied to an object of the wrong kind).
\<close>

datatype failure =
  Raised exception_class string
  | Undefined_behaviour string

text \<open>
  \<open>Exception_subclass\<close> stands for the classes that descend from \<^verbatim>\<open>Exception\<close>
  but not from \<^verbatim>\<open>StandardError\<close> (SystemExit, Interrupt, NoMemoryError,
  NotImplementedError, ...).
\<close>

fun is_StandardError :: "exception_class \<Rightarrow> bool" where
  "is_StandardError (Exception_subclass n) = False"
| "is_StandardError c = True"

fun rb_class_of :: "rb_value \<Rightarrow> rb_class" where
  "rb_class_of Qnil = cNilClass"
| "rb_class_of Qfalse = cFalseClass"
| "rb_class_of Qtrue = cTrueClass"
| "rb_class_of (Fixnum n) = cInteger"
| "rb_class_of (RString s) = cString"
| "rb_class_of (RSymbol s) = cSymbol"
| "rb_class_of (RProc p) = cProc"
| "rb_class_of (RArray xs) = cArray"
| "rb_class_of (RHash kvs) = cHash"
| "rb_class_of (RClass c) = cClass"
| "rb_class_of (RException c m) = cException"
| "rb_class_of (RData i) = cChannelCredentials"
| "rb_class_of (RCallCredentials c) = cCallCredentials"

text \<open>\<^verbatim>\<open>rb_ary_entry\<close> answers nil outside the array.\<close>

fun rb_ary_entry :: "rb_value \<Rightarrow> nat \<Rightarrow> rb_value" where
  "rb_ary_entry (RArray xs) i = (if i < length xs then xs ! i else Qnil)"
| "rb_ary_entry v i = Qnil"

text \<open>\<^verbatim>\<open>rb_ary_store\<close> extends the array with nil up to the index it writes.\<close>

fun rb_ary_store :: "rb_value \<Rightarrow> nat \<Rightarrow> rb_value \<Rightarrow> rb_value" where
  "rb_ary_store (RArray xs) i v =
     RArray ((if i < length xs then xs else xs @ replicate (Suc i - length xs) Qnil)[i := v])"
| "rb_ary_store a i v = a"

fun rb_to_id :: "rb_value \<Rightarrow> string" where
  "rb_to_id (RSymbol s) = s"
| "rb_to_id (RString s) = s"
| "rb_to_id v = []"

definition INT2NUM :: "int \<Rightarrow> rb_value" where
  "INT2NUM n = Fixnum n"

fun NUM2INT :: "rb_value \<Rightarrow> failure + int" where
  "NUM2INT (Fixnum n) = Inr n"
| "NUM2INT v = Inl (Raised TypeError ''no implicit conversion into Integer'')"

definition rb_str_new2 :: "string \<Rightarrow> rb_value" where
  "rb_str_new2 s = RString s"

text \<open>
  The managed runtime is a parameter: \<open>funcall rt recv mid args\<close> is what
  \<^verbatim>\<open>rb_funcall(recv, mid, ...)\<close> does, the method's value or the exception it raises.
\<close>

record runtime =
  funcall :: "rb_value \<Rightarrow> string \<Rightarrow> rb_value list \<Rightarrow> failure + rb_value"

text \<open>What the trampoline does that the provider or the process can observe.\<close>

datatype event =
  Printf string
  | Gvl_acquired
  | Gvl_released
  | Funcall rb_value string "rb_value list"

section \<open>The verification callback trampoline\<close>

record verify_callback_params =
  cb :: rb_value
  servername :: "string option"
  cert :: "string option"

text \<open>
  Lines 153-171. The value that \<^verbatim>\<open>rb_funcall\<close> returns is dropped in both
  branches; an exception of the called method leaves the function.
\<close>

definition verify_peer_callback_try_wrapper ::
  "runtime \<Rightarrow> rb_value \<Rightarrow> event list \<times> (failure + rb_value)" where
  "verify_peer_callback_try_wrapper rt arg =
     (let cb = rb_ary_entry arg 0;
          servername = rb_ary_entry arg 1;
          cert = rb_ary_entry arg 2
      in if rb_class_of cb = cProc then
           (case funcall rt cb ''call'' [servername, cert] of
              Inl e \<Rightarrow> ([Funcall cb ''call'' [servername, cert]], Inl e)
            | Inr r \<Rightarrow> ([Funcall cb ''call'' [servername, cert]], Inr (INT2NUM 0)))
         else if rb_class_of cb = cSymbol then
           (case funcall rt (RClass (rb_class_of cb)) (rb_to_id cb) [servername, cert] of
              Inl e \<Rightarrow>
                ([Funcall (RClass (rb_class_of cb)) (rb_to_id cb) [servername, cert]], Inl e)
            | Inr r \<Rightarrow>
                ([Funcall (RClass (rb_class_of cb)) (rb_to_id cb) [servername, cert]],
                 Inr (INT2NUM 0)))
         else
           ([Printf ''Callback argument in verify_peer_callback_try_wrapper is an invalid type!\<newline>''],
            Inr (INT2NUM 1)))"

text \<open>Lines 173-176.\<close>

definition verify_peer_callback_catch_wrapper ::
  "rb_value \<Rightarrow> rb_value \<Rightarrow> event list \<times> (failure + rb_value)" where
  "verify_peer_callback_catch_wrapper arg exception_object = ([], Inr (INT2NUM 1))"

text \<open>
  \<^verbatim>\<open>rb_rescue\<close> of the Ruby C API is
  \<^verbatim>\<open>rb_rescue2(b_proc, data1, r_proc, data2, rb_eStandardError, (VALUE)0)\<close>:
  the handler runs for an exception that is a StandardError, any other exception goes on
  to the caller. Undefined behaviour is not an exception and is not handled.
\<close>

definition rb_rescue ::
  "(rb_value \<Rightarrow> event list \<times> (failure + rb_value)) \<Rightarrow> rb_value \<Rightarrow>
   (rb_value \<Rightarrow> rb_value \<Rightarrow> event list \<times> (failure + rb_value)) \<Rightarrow> rb_value \<Rightarrow>
   event list \<times> (failure + rb_value)" where
  "rb_rescue b_proc data1 r_proc data2 =
     (case b_proc data1 of
        (tr, Inr v) \<Rightarrow> (tr, Inr v)
      | (tr, Inl (Undefined_behaviour u)) \<Rightarrow> (tr, Inl (Undefined_behaviour u))
      | (tr, Inl (Raised c m)) \<Rightarrow>
          (if is_StandardError c
           then (case r_proc data2 (RException c m) of (tr', r) \<Rightarrow> (tr @ tr', r))
           else (tr, Inl (Raised c m))))"

text \<open>
  Lines 181-193. The result is the null pointer (\<open>None\<close>) or the argument itself.
\<close>

definition invoke_rb_verify_callback_with_gvl ::
  "runtime \<Rightarrow> verify_callback_params \<Rightarrow>
   event list \<times> (failure + verify_callback_params option)" where
  "invoke_rb_verify_callback_with_gvl rt params =
     (let passthrough = RArray [];
          passthrough = rb_ary_store passthrough 0 (cb params);
          passthrough = rb_ary_store passthrough 1
            (if servername params \<noteq> None then rb_str_new2 (the (servername params)) else Qnil);
          passthrough = rb_ary_store passthrough 2
            (if cert params \<noteq> None then rb_str_new2 (the (cert params)) else Qnil)
      in case rb_rescue (verify_peer_callback_try_wrapper rt) passthrough
                verify_peer_callback_catch_wrapper Qnil of
           (tr, Inl e) \<Rightarrow> (tr, Inl e)
         | (tr, Inr result) \<Rightarrow>
             (case NUM2INT result of
                Inl e \<Rightarrow> (tr, Inl e)
              | Inr n \<Rightarrow> (tr, Inr (if n = 0 then None else Some params))))"

text \<open>
  \<^verbatim>\<open>rb_thread_call_with_gvl\<close> takes the global VM lock, runs the function and gives
  the lock back. An exception that leaves the function leaves this call too, into the
  native caller.
\<close>

definition rb_thread_call_with_gvl ::
  "('a \<Rightarrow> event list \<times> (failure + 'b)) \<Rightarrow> 'a \<Rightarrow> event list \<times> (failure + 'b)" where
  "rb_thread_call_with_gvl func data1 =
     (case func data1 of (tr, r) \<Rightarrow> (Gvl_acquired # tr @ [Gvl_released], r))"

text \<open>
  Lines 195-207. \<open>userdata = None\<close> is the null pointer; the provider's result is
  \<open>Inr 0\<close> (accept) or \<open>Inr 1\<close> (reject), and \<open>Inl e\<close> when an exception left
  the Ruby side without being handled.
\<close>

definition verify_peer_callback_wrapper ::
  "runtime \<Rightarrow> string option \<Rightarrow> string option \<Rightarrow> rb_value option \<Rightarrow>
   event list \<times> (failure + int)" where
  "verify_peer_callback_wrapper rt servername' cert' userdata =
     (case userdata of
        None \<Rightarrow> ([Printf ''Error! Callback function wasn't set!\<newline>''], Inr 1)
      | Some u \<Rightarrow>
          (let params = \<lparr>cb = u, servername = servername', cert = cert'\<rparr>
           in case rb_thread_call_with_gvl (invoke_rb_verify_callback_with_gvl rt) params of
                (tr, Inl e) \<Rightarrow> (tr, Inl e)
              | (tr, Inr p) \<Rightarrow> (tr, Inr (if p = None then 0 else 1))))"

section \<open>Credential owners and the native provider\<close>

text \<open>Lines 59-65: the struct behind a ChannelCredentials object.\<close>

record grpc_rb_channel_credentials =
  mark :: rb_value
  wrapped :: "nat option"

text \<open>
  A ChannelCredentials object: the struct it wraps and its instance variables
  (\<^verbatim>\<open>rb_ivar_set\<close>), newest first.
\<close>

record rb_object =
  data :: grpc_rb_channel_credentials
  ivars :: "(string \<times> rb_value) list"

text \<open>
  The process: the Ruby heap of ChannelCredentials objects, the provider's handles (the
  next one it will hand out, the ones alive, the ones released in order), and the static
  \<^verbatim>\<open>pem_root_certs\<close> of line 54 (the constructor has a local variable of the same
  name). Channel credentials and call credentials are native objects of the same
  provider: their handles share one address space, and \<open>live\<close> holds both kinds.
\<close>

record world =
  objects :: "rb_object list"
  next_handle :: nat
  live :: "nat set"
  released :: "nat list"
  static_pem_root_certs :: "string option"

text \<open>The state of a process that has run \<^verbatim>\<open>Init_grpc_channel_credentials\<close> only.\<close>

definition Init_grpc_channel_credentials :: world where
  "Init_grpc_channel_credentials =
     \<lparr>objects = [], next_handle = 0, live = {}, released = [],
      static_pem_root_certs = None\<rparr>"

datatype native_function = Verify_peer_callback_wrapper

record verify_peer_options =
  verify_peer_callback :: "native_function option"
  verify_peer_callback_userdata :: "rb_value option"
  verify_peer_destruct :: "native_function option"

record grpc_ssl_pem_key_cert_pair =
  private_key :: "string option"
  cert_chain :: "string option"

text \<open>
  The native provider is a parameter: it decides which requests it accepts. An accepted
  request returns a handle that was never handed out before; a refused one returns
  \<^verbatim>\<open>NULL\<close>.
\<close>

record provider =
  ssl_credentials_accepted ::
    "string option \<Rightarrow> grpc_ssl_pem_key_cert_pair option \<Rightarrow> verify_peer_options \<Rightarrow> bool"
  composite_accepted :: "nat option \<Rightarrow> nat option \<Rightarrow> bool"

definition new_handle :: "world \<Rightarrow> nat option \<times> world" where
  "new_handle st =
     (Some (next_handle st),
      st\<lparr>next_handle := Suc (next_handle st), live := insert (next_handle st) (live st)\<rparr>)"

definition grpc_ssl_credentials_create ::
  "provider \<Rightarrow> string option \<Rightarrow> grpc_ssl_pem_key_cert_pair option \<Rightarrow> verify_peer_options \<Rightarrow>
   world \<Rightarrow> nat option \<times> world" where
  "grpc_ssl_credentials_create P roots pair vp st =
     (if ssl_credentials_accepted P roots pair vp then new_handle st else (None, st))"

definition grpc_composite_channel_credentials_create ::
  "provider \<Rightarrow> nat option \<Rightarrow> nat option \<Rightarrow> world \<Rightarrow> nat option \<times> world" where
  "grpc_composite_channel_credentials_create P creds other st =
     (if composite_accepted P creds other then new_handle st else (None, st))"

definition grpc_channel_credentials_release :: "nat option \<Rightarrow> world \<Rightarrow> world" where
  "grpc_channel_credentials_release c st =
     (case c of
        None \<Rightarrow> st
      | Some h \<Rightarrow> st\<lparr>live := live st - {h}, released := released st @ [h]\<rparr>)"

text \<open>Lines 108-114.\<close>

definition grpc_rb_channel_credentials_alloc :: "rb_value \<Rightarrow> world \<Rightarrow> rb_value \<times> world" where
  "grpc_rb_channel_credentials_alloc cls st =
     (RData (length (objects st)),
      st\<lparr>objects := objects st @ [\<lparr>data = \<lparr>mark = Qnil, wrapped = None\<rparr>, ivars = []\<rparr>]\<rparr>)"

text \<open>
  \<^verbatim>\<open>TypedData_Get_Struct\<close> raises a TypeError for a value that is not a
  ChannelCredentials object.
\<close>

fun TypedData_Get_Struct :: "world \<Rightarrow> rb_value \<Rightarrow> failure + nat" where
  "TypedData_Get_Struct st (RData i) =
     (if i < length (objects st) then Inr i
      else Inl (Undefined_behaviour ''reference to an object that was never allocated''))"
| "TypedData_Get_Struct st v =
     Inl (Raised TypeError ''wrong argument type (expected grpc_channel_credentials)'')"

definition update_struct ::
  "nat \<Rightarrow> (grpc_rb_channel_credentials \<Rightarrow> grpc_rb_channel_credentials) \<Rightarrow> world \<Rightarrow> world" where
  "update_struct i f st =
     (if i < length (objects st)
      then st\<lparr>objects := (objects st)[i := (objects st ! i)\<lparr>data := f (data (objects st ! i))\<rparr>]\<rparr>
      else st)"

definition rb_ivar_set :: "nat \<Rightarrow> string \<Rightarrow> rb_value \<Rightarrow> world \<Rightarrow> world" where
  "rb_ivar_set i name v st =
     (if i < length (objects st)
      then st\<lparr>objects := (objects st)[i := (objects st ! i)
             \<lparr>ivars := (name, v) # filter (\<lambda>kv. fst kv \<noteq> name) (ivars (objects st ! i))\<rparr>]\<rparr>
      else st)"

text \<open>Lines 119-132.\<close>

definition grpc_rb_wrap_channel_credentials ::
  "nat option \<Rightarrow> rb_value \<Rightarrow> world \<Rightarrow> rb_value \<times> world" where
  "grpc_rb_wrap_channel_credentials c mark' st =
     (if c = None then (Qnil, st)
      else (case grpc_rb_channel_credentials_alloc (RClass cChannelCredentials) st of
              (rb_wrapper, st1) \<Rightarrow>
                (case TypedData_Get_Struct st1 rb_wrapper of
                   Inl e \<Rightarrow> (rb_wrapper, st1)
                 | Inr wrapper \<Rightarrow>
                     (rb_wrapper,
                      update_struct wrapper (\<lambda>w. w\<lparr>mark := mark'\<rparr>)
                        (update_struct wrapper (\<lambda>w. w\<lparr>wrapped := c\<rparr>) st1)))))"

text \<open>Lines 363-368.\<close>

definition grpc_rb_get_wrapped_channel_credentials ::
  "world \<Rightarrow> rb_value \<Rightarrow> failure + nat option" where
  "grpc_rb_get_wrapped_channel_credentials st v =
     (case TypedData_Get_Struct st v of
        Inl e \<Rightarrow> Inl e
      | Inr wrapper \<Rightarrow> Inr (wrapped (data (objects st ! wrapper))))"

text \<open>
  Lines 81-91: what the collector is told to mark for a struct. Marking an array or a
  hash marks what it holds.
\<close>

definition grpc_rb_channel_credentials_mark :: "grpc_rb_channel_credentials \<Rightarrow> rb_value list" where
  "grpc_rb_channel_credentials_mark wrapper = (if mark wrapper \<noteq> Qnil then [mark wrapper] else [])"

fun gc_children :: "rb_value \<Rightarrow> rb_value list" where
  "gc_children (RArray xs) = xs"
| "gc_children (RHash kvs) = map fst kvs @ map snd kvs"
| "gc_children v = []"

text \<open>
  The values that stay alive because the object is alive: its instance variables, what
  its mark function marks, and what those hold.
\<close>

definition kept_alive :: "rb_object \<Rightarrow> rb_value set" where
  "kept_alive obj =
     snd ` set (ivars obj)
     \<union> set (grpc_rb_channel_credentials_mark (data obj))
     \<union> (\<Union>v \<in> set (grpc_rb_channel_credentials_mark (data obj)). set (gc_children v))"

section \<open>The constructor\<close>

text \<open>Lines 356-359: the names of the hidden instance variables.\<close>

definition id_pem_cert_chain :: string where
  "id_pem_cert_chain = ''__pem_cert_chain''"

definition id_pem_private_key :: string where
  "id_pem_private_key = ''__pem_private_key''"

definition id_pem_root_certs :: string where
  "id_pem_root_certs = ''__pem_root_certs''"

definition id_check_server_identity_cb :: string where
  "id_check_server_identity_cb = ''__check_server_identity_cb''"

text \<open>
  \<^verbatim>\<open>rb_scan_args(argc, argv, "04", ...)\<close>: at most four arguments, a missing one
  is nil.
\<close>

definition rb_scan_args_04 ::
  "rb_value list \<Rightarrow> failure + (rb_value \<times> rb_value \<times> rb_value \<times> rb_value)" where
  "rb_scan_args_04 argv =
     (if 4 < length argv then Inl (Raised ArgumentError ''wrong number of arguments'')
      else Inr (rb_ary_entry (RArray argv) 0, rb_ary_entry (RArray argv) 1,
                rb_ary_entry (RArray argv) 2, rb_ary_entry (RArray argv) 3))"

text \<open>
  \<^verbatim>\<open>RSTRING_PTR\<close> is a macro that reads the string header of its argument and
  checks nothing: on a value that is not a String, nil included, C gives it no meaning.
  \<^verbatim>\<open>rb_hash_aref\<close> likewise expects a Hash.
\<close>

fun RSTRING_PTR :: "rb_value \<Rightarrow> failure + string" where
  "RSTRING_PTR (RString s) = Inr s"
| "RSTRING_PTR v = Inl (Undefined_behaviour ''RSTRING_PTR of a value that is not a String'')"

fun rb_hash_aref :: "rb_value \<Rightarrow> rb_value \<Rightarrow> failure + rb_value" where
  "rb_hash_aref (RHash kvs) key = Inr (case map_of kvs key of None \<Rightarrow> Qnil | Some v \<Rightarrow> v)"
| "rb_hash_aref h key = Inl (Undefined_behaviour ''rb_hash_aref of a value that is not a Hash'')"

text \<open>Lines 236 and 250-264: the verification options, for the owner at index \<open>self\<close>.\<close>

definition init_verify_peer_options ::
  "rb_value \<Rightarrow> nat \<Rightarrow> world \<Rightarrow> (failure + verify_peer_options) \<times> world" where
  "init_verify_peer_options options_hash self st =
     (let vp_options = \<lparr>verify_peer_callback = None, verify_peer_callback_userdata = None,
                        verify_peer_destruct = None\<rparr>
      in if options_hash \<noteq> Qnil then
           (case rb_hash_aref options_hash (rb_str_new2 ''checkServerIdentity'') of
              Inl e \<Rightarrow> (Inl e, st)
            | Inr option_value \<Rightarrow>
                if option_value \<noteq> Qnil then
                  (if rb_class_of option_value \<noteq> cProc \<and> rb_class_of option_value \<noteq> cSymbol
                   then (Inl (Raised TypeError ''Expected Proc or Symbol callback''), st)
                   else (Inr (vp_options
                            \<lparr>verify_peer_callback := Some Verify_peer_callback_wrapper,
                             verify_peer_callback_userdata := Some option_value,
                             verify_peer_destruct := None\<rparr>),
                         rb_ivar_set self id_check_server_identity_cb option_value st))
                else (Inr vp_options, st))
         else (Inr vp_options, st))"

text \<open>Lines 237 and 265-272: the call into the provider.\<close>

definition init_create_credentials ::
  "provider \<Rightarrow> string option \<Rightarrow> rb_value \<Rightarrow> rb_value \<Rightarrow> verify_peer_options \<Rightarrow> world \<Rightarrow>
   (failure + nat option) \<times> world" where
  "init_create_credentials P pem_root_certs_cstr pem_private_key pem_cert_chain vp_options st =
     (if pem_private_key = Qnil \<and> pem_cert_chain = Qnil then
        (case grpc_ssl_credentials_create P pem_root_certs_cstr None vp_options st of
           (creds, st1) \<Rightarrow> (Inr creds, st1))
      else
        (case RSTRING_PTR pem_private_key of
           Inl e \<Rightarrow> (Inl e, st)
         | Inr k \<Rightarrow>
             (case RSTRING_PTR pem_cert_chain of
                Inl e \<Rightarrow> (Inl e, st)
              | Inr c \<Rightarrow>
                  (case grpc_ssl_credentials_create P pem_root_certs_cstr
                          (Some \<lparr>private_key = Some k, cert_chain = Some c\<rparr>) vp_options st of
                     (creds, st1) \<Rightarrow> (Inr creds, st1)))))"

text \<open>Lines 225-285.\<close>

definition grpc_rb_channel_credentials_init ::
  "provider \<Rightarrow> rb_value list \<Rightarrow> rb_value \<Rightarrow> world \<Rightarrow> (failure + rb_value) \<times> world" where
  "grpc_rb_channel_credentials_init P argv self st =
     (case rb_scan_args_04 argv of
        Inl e \<Rightarrow> (Inl e, st)
      | Inr (pem_root_certs, pem_private_key, pem_cert_chain, options_hash) \<Rightarrow>
     (case TypedData_Get_Struct st self of
        Inl e \<Rightarrow> (Inl e, st)
      | Inr wrapper \<Rightarrow>
     (case (if pem_root_certs \<noteq> Qnil then map_sum id Some (RSTRING_PTR pem_root_certs)
            else Inr None) of
        Inl e \<Rightarrow> (Inl e, st)
      | Inr pem_root_certs_cstr \<Rightarrow>
     (case init_verify_peer_options options_hash wrapper st of
        (Inl e, st1) \<Rightarrow> (Inl e, st1)
      | (Inr vp_options, st1) \<Rightarrow>
     (case init_create_credentials P pem_root_certs_cstr pem_private_key pem_cert_chain
             vp_options st1 of
        (Inl e, st2) \<Rightarrow> (Inl e, st2)
      | (Inr creds, st2) \<Rightarrow>
          if creds = None
          then (Inl (Raised RuntimeError ''could not create a credentials, not sure why''), st2)
          else (Inr self,
                rb_ivar_set wrapper id_pem_root_certs pem_root_certs
                  (rb_ivar_set wrapper id_pem_private_key pem_private_key
                    (rb_ivar_set wrapper id_pem_cert_chain pem_cert_chain
                      (update_struct wrapper (\<lambda>w. w\<lparr>wrapped := creds\<rparr>) st2)))))))))"

section \<open>Composition\<close>

text \<open>
  Modelled from the spec: \<^verbatim>\<open>grpc_rb_get_wrapped_call_credentials\<close> lives in
  \<^verbatim>\<open>rb_call_credentials.c\<close>, which is not among the sources. It gives the native
  handle of a call credential and, like its sibling of lines 363-368, raises a TypeError
  for any other value.
\<close>

fun grpc_rb_get_wrapped_call_credentials :: "rb_value \<Rightarrow> failure + nat option" where
  "grpc_rb_get_wrapped_call_credentials (RCallCredentials c) = Inr c"
| "grpc_rb_get_wrapped_call_credentials v =
     Inl (Raised TypeError ''wrong argument type (expected grpc_call_credentials)'')"

definition rb_ary_new :: rb_value where
  "rb_ary_new = RArray []"

fun rb_ary_push :: "rb_value \<Rightarrow> rb_value \<Rightarrow> rb_value" where
  "rb_ary_push (RArray xs) v = RArray (xs @ [v])"
| "rb_ary_push a v = a"

text \<open>The error of line 309, under the name the specification gives it.\<close>

definition CompositionFailed :: failure where
  "CompositionFailed = Raised RuntimeError ''Failed to compose channel and call credentials''"

text \<open>
  Lines 299-312, the loop over the remaining arguments. It carries the mark array, the
  current handle \<open>creds\<close> and the handle \<open>prev\<close> to release.
\<close>

fun compose_loop ::
  "provider \<Rightarrow> rb_value list \<Rightarrow> rb_value \<Rightarrow> nat option \<Rightarrow> nat option \<Rightarrow> world \<Rightarrow>
   (failure + nat option \<times> rb_value) \<times> world" where
  "compose_loop P [] mark' creds prev st = (Inr (creds, mark'), st)"
| "compose_loop P (a # argv) mark' creds prev st =
     (let mark' = rb_ary_push mark' a
      in case grpc_rb_get_wrapped_call_credentials a of
           Inl e \<Rightarrow> (Inl e, st)
         | Inr other \<Rightarrow>
             (case grpc_composite_channel_credentials_create P creds other st of
                (creds', st1) \<Rightarrow>
                  (let st2 = (if prev \<noteq> None then grpc_channel_credentials_release prev st1
                              else st1);
                       prev = creds'
                   in if creds' = None then (Inl CompositionFailed, st2)
                      else compose_loop P argv mark' creds' prev st2)))"

text \<open>Lines 287-314.\<close>

definition grpc_rb_channel_credentials_compose ::
  "provider \<Rightarrow> rb_value list \<Rightarrow> rb_value \<Rightarrow> world \<Rightarrow> (failure + rb_value) \<times> world" where
  "grpc_rb_channel_credentials_compose P argv self st =
     (if length argv = 0 then (Inr self, st)
      else
        (case grpc_rb_get_wrapped_channel_credentials st self of
           Inl e \<Rightarrow> (Inl e, st)
         | Inr creds \<Rightarrow>
             (case compose_loop P argv (rb_ary_push rb_ary_new self) creds None st of
                (Inl e, st1) \<Rightarrow> (Inl e, st1)
              | (Inr (creds', mark'), st1) \<Rightarrow>
                  (case grpc_rb_wrap_channel_credentials creds' mark' st1 of
                     (v, st2) \<Rightarrow> (Inr v, st2)))))"

section \<open>The process-wide root override\<close>

datatype grpc_ssl_roots_override_result =
  GRPC_SSL_ROOTS_OVERRIDE_OK | GRPC_SSL_ROOTS_OVERRIDE_FAIL

text \<open>
  Lines 316-324: the value written through \<^verbatim>\<open>pem_root_certs_ptr\<close> and the result.
  The function changes nothing in the process.
\<close>

definition get_ssl_roots_override :: "world \<Rightarrow> string option \<times> grpc_ssl_roots_override_result" where
  "get_ssl_roots_override st =
     (static_pem_root_certs st,
      if static_pem_root_certs st = None then GRPC_SSL_ROOTS_OVERRIDE_FAIL
      else GRPC_SSL_ROOTS_OVERRIDE_OK)"

text \<open>
  \<^verbatim>\<open>StringValueCStr\<close> raises a TypeError for a value that is not a String and an
  ArgumentError for a String with a null byte inside.
\<close>

fun StringValueCStr :: "rb_value \<Rightarrow> failure + string" where
  "StringValueCStr (RString s) =
     (if CHR 0x00 \<in> set s then Inl (Raised ArgumentError ''string contains null byte'')
      else Inr s)"
| "StringValueCStr v = Inl (Raised TypeError ''no implicit conversion into String'')"

definition strlen :: "string \<Rightarrow> nat" where
  "strlen s = length (takeWhile (\<lambda>c. c \<noteq> CHR 0x00) s)"

text \<open>
  Lines 326-333. The buffer receives \<open>length + 1\<close> bytes of the argument followed by its
  terminator; the static then holds the C string that starts there.
\<close>

definition grpc_rb_set_default_roots_pem ::
  "rb_value \<Rightarrow> rb_value \<Rightarrow> world \<Rightarrow> (failure + rb_value) \<times> world" where
  "grpc_rb_set_default_roots_pem self roots st =
     (case StringValueCStr roots of
        Inl e \<Rightarrow> (Inl e, st)
      | Inr roots_ptr \<Rightarrow>
          (let length' = strlen roots_ptr;
               buffer = take (length' + 1) (roots_ptr @ [CHR 0x00])
           in (Inr Qnil,
               st\<lparr>static_pem_root_certs := Some (takeWhile (\<lambda>c. c \<noteq> CHR 0x00) buffer)\<rparr>)))"

text \<open>A run of calls of \<^verbatim>\<open>set_default_roots_pem\<close>, one after the other.\<close>

fun set_default_roots_pem_calls :: "rb_value list \<Rightarrow> world \<Rightarrow> world" where
  "set_default_roots_pem_calls [] st = st"
| "set_default_roots_pem_calls (roots # rest) st =
     set_default_roots_pem_calls rest
       (snd (grpc_rb_set_default_roots_pem (RClass cChannelCredentials) roots st))"

section \<open>The method table\<close>

text \<open>The error of a refused copy, under the name the specification gives it.\<close>

definition IllegalReinitialization :: failure where
  "IllegalReinitialization =
     Raised TypeError ''Copy initialization of ChannelCredentials is not supported''"

text \<open>
  Modelled from the spec: \<^verbatim>\<open>grpc_rb_cannot_init_copy\<close> is defined in
  \<^verbatim>\<open>rb_grpc.c\<close>, which is not among the sources. A copy operation fails with
  IllegalReinitialization, at once and with no side effect.
\<close>

definition grpc_rb_cannot_init_copy :: "rb_value \<Rightarrow> rb_value \<Rightarrow> failure + rb_value" where
  "grpc_rb_cannot_init_copy copy self = Inl IllegalReinitialization"

text \<open>
  Lines 343-349: the instance methods that \<^verbatim>\<open>Init_grpc_channel_credentials\<close>
  defines, the first and the third with any number of arguments, the second with one.
\<close>

definition ChannelCredentials_send ::
  "provider \<Rightarrow> rb_value \<Rightarrow> string \<Rightarrow> rb_value list \<Rightarrow> world \<Rightarrow> (failure + rb_value) \<times> world" where
  "ChannelCredentials_send P self mid argv st =
     (if mid = ''initialize'' then grpc_rb_channel_credentials_init P argv self st
      else if mid = ''initialize_copy'' then
        (if length argv = 1 then (grpc_rb_cannot_init_copy self (argv ! 0), st)
         else (Inl (Raised ArgumentError ''wrong number of arguments''), st))
      else if mid = ''compose'' then grpc_rb_channel_credentials_compose P argv self st
      else (Inl (Raised NoMethodError mid), st))"

section \<open>Concrete runtimes, providers and processes\<close>

definition runtime_returning :: "rb_value \<Rightarrow> runtime" where
  "runtime_returning v = \<lparr>funcall = (\<lambda>recv mid args. Inr v)\<rparr>"

definition runtime_raising :: "exception_class \<Rightarrow> string \<Rightarrow> runtime" where
  "runtime_raising c m = \<lparr>funcall = (\<lambda>recv mid args. Inl (Raised c m))\<rparr>"

text \<open>A provider that accepts every request, and one that refuses a composition on handle \<open>h\<close>.\<close>

definition accepting_provider :: provider where
  "accepting_provider =
     \<lparr>ssl_credentials_accepted = (\<lambda>roots pair vp. True),
      composite_accepted = (\<lambda>creds other. True)\<rparr>"

definition provider_refusing_on :: "nat \<Rightarrow> provider" where
  "provider_refusing_on h =
     \<lparr>ssl_credentials_accepted = (\<lambda>roots pair vp. True),
      composite_accepted = (\<lambda>creds other. creds \<noteq> Some h)\<rparr>"

text \<open>A process with one initialised owner, at index 0, that holds handle 0.\<close>

definition one_owner :: world where
  "one_owner =
     \<lparr>objects = [\<lparr>data = \<lparr>mark = Qnil, wrapped = Some 0\<rparr>,
                  ivars = [(''__pem_root_certs'', Qnil), (''__pem_private_key'', Qnil),
                           (''__pem_cert_chain'', Qnil)]\<rparr>],
      next_handle = 1, live = {0}, released = [], static_pem_root_certs = None\<rparr>"

text \<open>
  A process with the same owner and two call credentials, whose handles are 1 and 2.
\<close>

definition owner_and_call_credentials :: world where
  "owner_and_call_credentials =
     \<lparr>objects = [\<lparr>data = \<lparr>mark = Qnil, wrapped = Some 0\<rparr>,
                  ivars = [(''__pem_root_certs'', Qnil), (''__pem_private_key'', Qnil),
                           (''__pem_cert_chain'', Qnil)]\<rparr>],
      next_handle = 3, live = {0, 1, 2}, released = [], static_pem_root_certs = None\<rparr>"

text \<open>
  Every handle alive, and every handle an owner holds, was handed out by the provider:
  it is below the next handle.
\<close>

definition wf_world :: "world \<Rightarrow> bool" where
  "wf_world st =
     ((\<forall>h \<in> live st. h < next_handle st)
      \<and> (\<forall>obj \<in> set (objects st). \<forall>h \<in> set_option (wrapped (data obj)). h < next_handle st))"


text \<open>A process in which one owner has been allocated and not yet initialised.\<close>

definition one_allocated :: world where
  "one_allocated =
     snd (grpc_rb_channel_credentials_alloc (RClass cChannelCredentials)
            Init_grpc_channel_credentials)"

text \<open>A successful construction with a verification callback, a successful composition, and a
  composition whose second step the provider refuses.\<close>

definition constructed :: "(failure + rb_value) \<times> world" where
  "constructed =
     grpc_rb_channel_credentials_init accepting_provider
       [RString ''ROOTS'', RString ''KEY'', RString ''CHAIN'',
        RHash [(RString ''checkServerIdentity'', RProc 0)]]
       (RData 0) one_allocated"

definition composed :: "(failure + rb_value) \<times> world" where
  "composed =
     grpc_rb_channel_credentials_compose accepting_provider
       [RCallCredentials (Some 7)] (RData 0) one_owner"

definition failing_composition :: "(failure + rb_value) \<times> world" where
  "failing_composition =
     grpc_rb_channel_credentials_compose (provider_refusing_on 3)
       [RCallCredentials (Some 1), RCallCredentials (Some 2)] (RData 0)
       owner_and_call_credentials"

section \<open>Properties of the trampoline\<close>

lemma passthrough_built:
  "rb_ary_store (rb_ary_store (rb_ary_store (RArray []) 0 a) 1 b) 2 c = RArray [a, b, c]"
  by (simp add: numeral_2_eq_2)

lemma passthrough_entries:
  "rb_ary_entry (RArray [a, b, c]) 0 = a"
  "rb_ary_entry (RArray [a, b, c]) 1 = b"
  "rb_ary_entry (RArray [a, b, c]) 2 = c"
  by (simp_all add: numeral_2_eq_2)

lemma try_wrapper_Proc:
  assumes "rb_class_of u = cProc"
  shows "verify_peer_callback_try_wrapper rt (RArray [u, s, c]) =
    ([Funcall u ''call'' [s, c]],
     case funcall rt u ''call'' [s, c] of Inl e \<Rightarrow> Inl e | Inr r \<Rightarrow> Inr (INT2NUM 0))"
  using assms unfolding verify_peer_callback_try_wrapper_def passthrough_entries Let_def
  by (simp split: sum.splits)

lemma try_wrapper_Symbol:
  assumes "rb_class_of u = cSymbol"
  shows "verify_peer_callback_try_wrapper rt (RArray [u, s, c]) =
    ([Funcall (RClass cSymbol) (rb_to_id u) [s, c]],
     case funcall rt (RClass cSymbol) (rb_to_id u) [s, c] of
       Inl e \<Rightarrow> Inl e | Inr r \<Rightarrow> Inr (INT2NUM 0))"
  using assms unfolding verify_peer_callback_try_wrapper_def passthrough_entries Let_def
  by (simp split: sum.splits)

lemma wrapper_of_rescue:
  "verify_peer_callback_wrapper rt sn ct (Some u) =
     (case rb_rescue (verify_peer_callback_try_wrapper rt)
             (RArray [u, case sn of None \<Rightarrow> Qnil | Some s \<Rightarrow> RString s,
                         case ct of None \<Rightarrow> Qnil | Some s \<Rightarrow> RString s])
             verify_peer_callback_catch_wrapper Qnil of
        (tr, Inl e) \<Rightarrow> (Gvl_acquired # tr @ [Gvl_released], Inl e)
      | (tr, Inr result) \<Rightarrow>
          (case NUM2INT result of
             Inl e \<Rightarrow> (Gvl_acquired # tr @ [Gvl_released], Inl e)
           | Inr n \<Rightarrow> (Gvl_acquired # tr @ [Gvl_released], Inr (if n = 0 then 0 else 1))))"
proof -
  have m: "(if p \<noteq> None then rb_str_new2 (the p) else Qnil) =
           (case p of None \<Rightarrow> Qnil | Some s \<Rightarrow> RString s)" for p
    by (cases p) (simp_all add: rb_str_new2_def)
  show ?thesis
    unfolding verify_peer_callback_wrapper_def rb_thread_call_with_gvl_def
      invoke_rb_verify_callback_with_gvl_def Let_def passthrough_built m
    by (simp split: prod.splits sum.splits)
qed

text \<open>
  Claim C9. When the provider calls the trampoline with a null userdata pointer, the
  trampoline prints its message and answers reject (1); it neither takes the runtime's
  lock nor calls any method.
\<close>

theorem absent_binding_rejected:
  "verify_peer_callback_wrapper rt sn ct None =
     ([Printf ''Error! Callback function wasn't set!\<newline>''], Inr 1)
   \<and> Gvl_acquired \<notin> set (fst (verify_peer_callback_wrapper rt sn ct None))
   \<and> (\<forall>recv mid args. Funcall recv mid args \<notin> set (fst (verify_peer_callback_wrapper rt sn ct None)))"
  by (simp add: verify_peer_callback_wrapper_def)

text \<open>
  Claim C1, as amended. When the userdata is a Proc or a Symbol and the method the
  trampoline calls for it returns, the trampoline answers accept (0), whatever value the
  method returned.
\<close>

theorem completed_callable_accepted:
  assumes "rb_class_of u = cProc \<and>
             funcall rt u ''call''
               [case sn of None \<Rightarrow> Qnil | Some s \<Rightarrow> RString s,
                case ct of None \<Rightarrow> Qnil | Some s \<Rightarrow> RString s] = Inr v
           \<or> rb_class_of u = cSymbol \<and>
             funcall rt (RClass cSymbol) (rb_to_id u)
               [case sn of None \<Rightarrow> Qnil | Some s \<Rightarrow> RString s,
                case ct of None \<Rightarrow> Qnil | Some s \<Rightarrow> RString s] = Inr v"
  shows "snd (verify_peer_callback_wrapper rt sn ct (Some u)) = Inr 0"
  using assms
proof
  assume a: "rb_class_of u = cProc \<and>
             funcall rt u ''call''
               [case sn of None \<Rightarrow> Qnil | Some s \<Rightarrow> RString s,
                case ct of None \<Rightarrow> Qnil | Some s \<Rightarrow> RString s] = Inr v"
  then show ?thesis
    by (simp add: wrapper_of_rescue rb_rescue_def try_wrapper_Proc INT2NUM_def)
next
  assume a: "rb_class_of u = cSymbol \<and>
             funcall rt (RClass cSymbol) (rb_to_id u)
               [case sn of None \<Rightarrow> Qnil | Some s \<Rightarrow> RString s,
                case ct of None \<Rightarrow> Qnil | Some s \<Rightarrow> RString s] = Inr v"
  then show ?thesis
    by (simp add: wrapper_of_rescue rb_rescue_def try_wrapper_Symbol INT2NUM_def)
qed

text \<open>
  Witness for C1: a Proc called with \<open>example.com\<close> and a certificate that returns true.
\<close>

theorem completed_callable_accepted_example:
  "snd (verify_peer_callback_wrapper (runtime_returning Qtrue)
          (Some ''example.com'') (Some ''<pem>'') (Some (RProc 0))) = Inr 0"
  using completed_callable_accepted [of "RProc 0" "runtime_returning Qtrue"
      "Some ''example.com''" "Some ''<pem>''" Qtrue]
  by (simp add: runtime_returning_def)

text \<open>
  Counterexample to C1 as stated: a Proc that returns false without raising is not
  answered with reject (1).
\<close>

theorem false_return_not_rejected:
  "funcall (runtime_returning Qfalse) (RProc 0) ''call''
     [RString ''example.com'', RString ''<pem>''] = Inr Qfalse
   \<and> snd (verify_peer_callback_wrapper (runtime_returning Qfalse)
          (Some ''example.com'') (Some ''<pem>'') (Some (RProc 0))) \<noteq> Inr 1"
  by (simp add: wrapper_of_rescue rb_rescue_def try_wrapper_Proc INT2NUM_def
      runtime_returning_def)

text \<open>
  Claim C2, as amended. When the method the trampoline calls for the userdata raises an
  exception that is a StandardError, the trampoline answers reject (1) and no exception
  reaches the provider.
\<close>

theorem raising_callable_rejected:
  assumes "is_StandardError c"
    and "rb_class_of u = cProc \<and>
             funcall rt u ''call''
               [case sn of None \<Rightarrow> Qnil | Some s \<Rightarrow> RString s,
                case ct of None \<Rightarrow> Qnil | Some s \<Rightarrow> RString s] = Inl (Raised c m)
           \<or> rb_class_of u = cSymbol \<and>
             funcall rt (RClass cSymbol) (rb_to_id u)
               [case sn of None \<Rightarrow> Qnil | Some s \<Rightarrow> RString s,
                case ct of None \<Rightarrow> Qnil | Some s \<Rightarrow> RString s] = Inl (Raised c m)"
  shows "snd (verify_peer_callback_wrapper rt sn ct (Some u)) = Inr 1"
  using assms(2)
proof
  assume "rb_class_of u = cProc \<and>
             funcall rt u ''call''
               [case sn of None \<Rightarrow> Qnil | Some s \<Rightarrow> RString s,
                case ct of None \<Rightarrow> Qnil | Some s \<Rightarrow> RString s] = Inl (Raised c m)"
  with assms(1) show ?thesis
    by (simp add: wrapper_of_rescue rb_rescue_def try_wrapper_Proc INT2NUM_def
        verify_peer_callback_catch_wrapper_def)
next
  assume "rb_class_of u = cSymbol \<and>
             funcall rt (RClass cSymbol) (rb_to_id u)
               [case sn of None \<Rightarrow> Qnil | Some s \<Rightarrow> RString s,
                case ct of None \<Rightarrow> Qnil | Some s \<Rightarrow> RString s] = Inl (Raised c m)"
  with assms(1) show ?thesis
    by (simp add: wrapper_of_rescue rb_rescue_def try_wrapper_Symbol INT2NUM_def
        verify_peer_callback_catch_wrapper_def)
qed

text \<open>Witness for C2: a Proc that raises a RuntimeError.\<close>

theorem raising_callable_rejected_example:
  "is_StandardError RuntimeError
   \<and> funcall (runtime_raising RuntimeError ''untrusted'') (RProc 0) ''call''
       [RString ''example.com'', RString ''<pem>''] = Inl (Raised RuntimeError ''untrusted'')
   \<and> snd (verify_peer_callback_wrapper (runtime_raising RuntimeError ''untrusted'')
          (Some ''example.com'') (Some ''<pem>'') (Some (RProc 0))) = Inr 1"
  using raising_callable_rejected [of RuntimeError "RProc 0"
      "runtime_raising RuntimeError ''untrusted''"
      "Some ''example.com''" "Some ''<pem>''" "''untrusted''"]
  by (simp add: runtime_raising_def)

text \<open>
  Counterexample to C2 as stated: an exception that is not a StandardError is not caught
  by \<^verbatim>\<open>rb_rescue\<close>; it leaves the trampoline instead of becoming reject (1).
\<close>

theorem non_standard_exception_escapes:
  "funcall (runtime_raising (Exception_subclass ''SystemExit'') ''exit'') (RProc 0) ''call''
       [RString ''example.com'', RString ''<pem>'']
     = Inl (Raised (Exception_subclass ''SystemExit'') ''exit'')
   \<and> snd (verify_peer_callback_wrapper
            (runtime_raising (Exception_subclass ''SystemExit'') ''exit'')
            (Some ''example.com'') (Some ''<pem>'') (Some (RProc 0)))
     = Inl (Raised (Exception_subclass ''SystemExit'') ''exit'')"
  by (simp add: wrapper_of_rescue rb_rescue_def try_wrapper_Proc runtime_raising_def)

section \<open>Properties of owners, composition and the root override\<close>

lemma wrap_non_null:
  "grpc_rb_wrap_channel_credentials (Some h) m st =
     (RData (length (objects st)),
      st\<lparr>objects := objects st @ [\<lparr>data = \<lparr>mark = m, wrapped = Some h\<rparr>, ivars = []\<rparr>]\<rparr>)"
  by (simp add: grpc_rb_wrap_channel_credentials_def grpc_rb_channel_credentials_alloc_def
      update_struct_def)

text \<open>
  Claim C10. Wrapping a null handle gives nil and changes nothing. Wrapping a handle that
  is not null gives a new object, one that the heap did not hold before, whose struct
  holds that handle and the given mark.
\<close>

theorem wrap_channel_credentials_result:
  "grpc_rb_wrap_channel_credentials None m st = (Qnil, st)
   \<and> fst (grpc_rb_wrap_channel_credentials (Some h) m st) = RData (length (objects st))
   \<and> TypedData_Get_Struct st (fst (grpc_rb_wrap_channel_credentials (Some h) m st))
       = Inl (Undefined_behaviour ''reference to an object that was never allocated'')
   \<and> objects (snd (grpc_rb_wrap_channel_credentials (Some h) m st))
       = objects st @ [\<lparr>data = \<lparr>mark = m, wrapped = Some h\<rparr>, ivars = []\<rparr>]
   \<and> grpc_rb_get_wrapped_channel_credentials
         (snd (grpc_rb_wrap_channel_credentials (Some h) m st))
         (fst (grpc_rb_wrap_channel_credentials (Some h) m st)) = Inr (Some h)
   \<and> mark (data (objects (snd (grpc_rb_wrap_channel_credentials (Some h) m st))
                    ! length (objects st))) = m"
  unfolding wrap_non_null
  by (simp add: grpc_rb_wrap_channel_credentials_def grpc_rb_get_wrapped_channel_credentials_def)

text \<open>
  Claim C5. Composing an owner with no call credentials returns the owner itself and
  leaves the process as it was: the same object, the same handle, no handle handed out.
\<close>

theorem compose_nothing_is_identity:
  "grpc_rb_channel_credentials_compose P [] self st = (Inr self, st)
   \<and> ChannelCredentials_send P self ''compose'' [] st = (Inr self, st)
   \<and> grpc_rb_get_wrapped_channel_credentials
         (snd (grpc_rb_channel_credentials_compose P [] self st))
         (projr (fst (grpc_rb_channel_credentials_compose P [] self st)))
       = grpc_rb_get_wrapped_channel_credentials st self
   \<and> next_handle (snd (grpc_rb_channel_credentials_compose P [] self st)) = next_handle st"
  by (simp add: grpc_rb_channel_credentials_compose_def ChannelCredentials_send_def)

lemma set_default_roots_pem_cstring:
  assumes "CHR 0x00 \<notin> set p"
  shows "grpc_rb_set_default_roots_pem self (RString p) st =
           (Inr Qnil, st\<lparr>static_pem_root_certs := Some p\<rparr>)"
proof -
  have h: "\<forall>c \<in> set p. c \<noteq> CHR 0x00"
    using assms by auto
  have t: "takeWhile (\<lambda>c. c \<noteq> CHR 0x00) p = p"
    using h by (simp add: takeWhile_eq_all_conv)
  have "strlen p = length p"
    by (simp add: strlen_def t)
  moreover have "takeWhile (\<lambda>c. c \<noteq> CHR 0x00) (p @ [CHR 0x00]) = p"
    using h by (simp add: takeWhile_append2)
  ultimately show ?thesis
    using assms by (simp add: grpc_rb_set_default_roots_pem_def)
qed

lemma set_default_roots_pem_calls_snoc:
  "set_default_roots_pem_calls (xs @ [x]) st =
     snd (grpc_rb_set_default_roots_pem (RClass cChannelCredentials) x
            (set_default_roots_pem_calls xs st))"
  by (induction xs arbitrary: st) simp_all

lemma set_default_roots_pem_calls_last:
  assumes "\<forall>p \<in> set pems. CHR 0x00 \<notin> set p" "pems \<noteq> []"
  shows "static_pem_root_certs (set_default_roots_pem_calls (map RString pems) st)
           = Some (last pems)"
  using assms
proof (induction pems rule: rev_induct)
  case Nil
  then show ?case by simp
next
  case (snoc p pems)
  then show ?case
    by (simp add: set_default_roots_pem_calls_snoc set_default_roots_pem_cstring)
qed

text \<open>
  Claim C7. In a process where no roots were stored, the override hook reports failure
  and the null pointer. After one or more calls of \<^verbatim>\<open>set_default_roots_pem\<close>, each
  with a PEM text (a String with no null byte), the hook reports success with the text of
  the last call.
\<close>

theorem root_override_last_write_wins:
  assumes "static_pem_root_certs st = None"
    and "\<forall>p \<in> set pems. CHR 0x00 \<notin> set p"
  shows "get_ssl_roots_override (set_default_roots_pem_calls (map RString pems) st) =
           (if pems = [] then (None, GRPC_SSL_ROOTS_OVERRIDE_FAIL)
            else (Some (last pems), GRPC_SSL_ROOTS_OVERRIDE_OK))"
proof (cases "pems = []")
  case True
  with assms(1) show ?thesis by (simp add: get_ssl_roots_override_def)
next
  case False
  with assms(2) show ?thesis
    by (simp add: get_ssl_roots_override_def set_default_roots_pem_calls_last)
qed

text \<open>Witness for C7: no call, and the calls with ROOT-A then ROOT-B.\<close>

theorem root_override_example:
  "static_pem_root_certs Init_grpc_channel_credentials = None
   \<and> CHR 0x00 \<notin> set ''ROOT-A'' \<and> CHR 0x00 \<notin> set ''ROOT-B''
   \<and> get_ssl_roots_override (set_default_roots_pem_calls (map RString []) Init_grpc_channel_credentials)
       = (None, GRPC_SSL_ROOTS_OVERRIDE_FAIL)
   \<and> get_ssl_roots_override
         (set_default_roots_pem_calls (map RString [''ROOT-A'', ''ROOT-B''])
            Init_grpc_channel_credentials)
       = (Some ''ROOT-B'', GRPC_SSL_ROOTS_OVERRIDE_OK)"
  using root_override_last_write_wins [of Init_grpc_channel_credentials "[''ROOT-A'', ''ROOT-B'']"]
    root_override_last_write_wins [of Init_grpc_channel_credentials "[]"]
  by (simp add: Init_grpc_channel_credentials_def)

text \<open>
  Claim C3, as amended. The copy operation fails with IllegalReinitialization and leaves
  the process, and so every owner's handle, as it was.
\<close>

theorem copy_refused:
  "ChannelCredentials_send P copy ''initialize_copy'' [orig] st = (Inl IllegalReinitialization, st)"
  by (simp add: ChannelCredentials_send_def grpc_rb_cannot_init_copy_def)

text \<open>
  Counterexample to C3 as stated: \<^verbatim>\<open>initialize\<close> called again on an initialised
  owner succeeds and puts a new handle in place of the owner's handle.
\<close>

theorem second_initialize_replaces_handle:
  "grpc_rb_get_wrapped_channel_credentials one_owner (RData 0) = Inr (Some 0)
   \<and> fst (ChannelCredentials_send accepting_provider (RData 0) ''initialize'' [] one_owner)
       = Inr (RData 0)
   \<and> grpc_rb_get_wrapped_channel_credentials
         (snd (ChannelCredentials_send accepting_provider (RData 0) ''initialize'' [] one_owner))
         (RData 0) = Inr (Some 1)"
  by (simp add: ChannelCredentials_send_def grpc_rb_channel_credentials_init_def
      rb_scan_args_04_def one_owner_def accepting_provider_def init_verify_peer_options_def
      init_create_credentials_def grpc_ssl_credentials_create_def new_handle_def
      update_struct_def rb_ivar_set_def grpc_rb_get_wrapped_channel_credentials_def Let_def)

text \<open>
  Claim C8 at its failing inputs. A private key with no certificate chain, or a chain
  with no key, raises nothing: the constructor goes on to read the string pointer of nil
  for the missing field.
\<close>

theorem key_without_chain_not_rejected:
  "grpc_rb_channel_credentials_init P [Qnil, RString ''KEY''] (RData 0) one_allocated
     = (Inl (Undefined_behaviour ''RSTRING_PTR of a value that is not a String''), one_allocated)
   \<and> grpc_rb_channel_credentials_init P [Qnil, Qnil, RString ''CHAIN''] (RData 0) one_allocated
     = (Inl (Undefined_behaviour ''RSTRING_PTR of a value that is not a String''), one_allocated)"
  by (simp add: grpc_rb_channel_credentials_init_def numeral_2_eq_2 numeral_3_eq_3
      rb_scan_args_04_def one_allocated_def grpc_rb_channel_credentials_alloc_def
      Init_grpc_channel_credentials_def init_verify_peer_options_def
      init_create_credentials_def Let_def)

lemma call_credentials_cases:
  assumes "rb_class_of a = cCallCredentials"
  obtains c where "a = RCallCredentials c"
  using assms by (cases a) simp_all



lemma handles_after_step:
  fixes n n' :: nat and L L2 L' :: "nat set"
  assumes "L' = L2 - {n} - {Suc n ..< n'}" "L2 = insert n L - P" "n < n'"
  shows "L' = L - P - {n ..< n'}"
proof -
  have "{n ..< n'} = insert n {Suc n ..< n'}"
    using assms(3) by auto
  with assms(1,2) show ?thesis by blast
qed

lemma compose_loop_refused:
  assumes "compose_loop P (RCallCredentials c # argv) m creds prev st = (Inl e, st')"
    and "\<not> composite_accepted P creds c"
  shows "e = CompositionFailed \<and> st' = (if prev \<noteq> None then grpc_channel_credentials_release prev st else st)"
  using assms
  by (cases prev) (auto simp add: grpc_composite_channel_credentials_create_def)

lemma compose_loop_accepted:
  assumes "compose_loop P (RCallCredentials c # argv) m creds prev st = (r, st')"
    and "composite_accepted P creds c"
  shows "compose_loop P argv (rb_ary_push m (RCallCredentials c)) (Some (next_handle st))
           (Some (next_handle st))
           (if prev \<noteq> None then grpc_channel_credentials_release prev (snd (new_handle st))
            else snd (new_handle st)) = (r, st')"
  using assms
  by (cases prev)
    (simp_all add: grpc_composite_channel_credentials_create_def new_handle_def Let_def)

lemma world_after_step:
  assumes "st2 =
      (if prev \<noteq> None then grpc_channel_credentials_release prev (snd (new_handle st))
       else snd (new_handle st))"
  shows "objects st2 = objects st"
    and "static_pem_root_certs st2 = static_pem_root_certs st"
    and "next_handle st2 = Suc (next_handle st)"
    and "released st2 = released st @ (case prev of None \<Rightarrow> [] | Some p \<Rightarrow> [p])"
    and "live st2 = insert (next_handle st) (live st) - set_option prev"
  using assms
  by (cases prev, simp_all add: new_handle_def grpc_channel_credentials_release_def)+

lemma compose_loop_failure:
  assumes "compose_loop P argv m creds prev st = (Inl e, st')"
    and "\<forall>a \<in> set argv. rb_class_of a = cCallCredentials"
  shows "e = CompositionFailed
         \<and> objects st' = objects st
         \<and> static_pem_root_certs st' = static_pem_root_certs st
         \<and> next_handle st \<le> next_handle st'
         \<and> released st' =
             released st @ (case prev of None \<Rightarrow> [] | Some p \<Rightarrow> [p])
               @ [next_handle st ..< next_handle st']
         \<and> live st' = live st - set_option prev - {next_handle st ..< next_handle st'}"
  using assms
proof (induction argv arbitrary: m creds prev st)
  case Nil
  then show ?case by simp
next
  case (Cons a argv)
  from Cons.prems(2) have "rb_class_of a = cCallCredentials"
    by simp
  then obtain c where a: "a = RCallCredentials c"
    by (rule call_credentials_cases)
  show ?case
  proof (cases "composite_accepted P creds c")
    case False
    from compose_loop_refused [OF Cons.prems(1) [unfolded a] False] show ?thesis
      by (cases prev) (simp_all add: grpc_channel_credentials_release_def)
  next
    case True
    define st2 where "st2 =
      (if prev \<noteq> None then grpc_channel_credentials_release prev (snd (new_handle st))
       else snd (new_handle st))"
    note st2 = world_after_step [OF st2_def]
    have rec: "compose_loop P argv (rb_ary_push m a) (Some (next_handle st))
                 (Some (next_handle st)) st2 = (Inl e, st')"
      unfolding st2_def a
      by (rule compose_loop_accepted [OF Cons.prems(1) [unfolded a] True])
    from Cons.prems(2) have rest: "\<forall>a \<in> set argv. rb_class_of a = cCallCredentials"
      by simp
    note ih = Cons.IH [OF rec rest]
    from ih have e: "e = CompositionFailed" by (rule conjunct1)
    from ih have o: "objects st' = objects st2" by simp
    from ih have p: "static_pem_root_certs st' = static_pem_root_certs st2" by simp
    from ih have le: "next_handle st2 \<le> next_handle st'" by simp
    from ih have r: "released st' =
        released st2 @ [next_handle st] @ [next_handle st2 ..< next_handle st']" by simp
    from ih have l: "live st' =
        live st2 - {next_handle st} - {next_handle st2 ..< next_handle st'}" by simp
    have lt: "next_handle st < next_handle st'"
      using le st2(3) by simp
    have upt: "[next_handle st ..< next_handle st'] =
                 next_handle st # [Suc (next_handle st) ..< next_handle st']"
      using lt by (simp add: upt_conv_Cons)
    have l': "live st' = live st - set_option prev - {next_handle st ..< next_handle st'}"
      using l [unfolded st2(3)] st2(5) lt by (rule handles_after_step)
    have r': "released st' = released st @ (case prev of None \<Rightarrow> [] | Some p \<Rightarrow> [p])
               @ [next_handle st ..< next_handle st']"
      unfolding r st2(3) st2(4) upt by simp
    from e o p lt l' r' st2(1,2) show ?thesis
      by simp
  qed
qed

lemma compose_loop_type_error:
  assumes "compose_loop P (a # argv) m creds prev st = (Inr x, st')"
  obtains c where "a = RCallCredentials c"
  using assms by (cases a) simp_all

lemma compose_loop_success:
  assumes "compose_loop P argv (RArray ms) creds prev st = (Inr (creds', m'), st')"
  shows "m' = RArray (ms @ argv) \<and> (argv = [] \<longrightarrow> creds' = creds)
         \<and> (argv \<noteq> [] \<longrightarrow> creds' \<noteq> None)"
  using assms
proof (induction argv arbitrary: ms creds prev st)
  case Nil
  then show ?case by simp
next
  case (Cons a argv)
  from Cons.prems obtain c where a: "a = RCallCredentials c"
    by (rule compose_loop_type_error)
  have acc: "composite_accepted P creds c"
  proof (rule ccontr)
    assume "\<not> composite_accepted P creds c"
    with Cons.prems show False
      unfolding a
      by (cases prev) (simp_all add: grpc_composite_channel_credentials_create_def)
  qed
  from compose_loop_accepted [OF Cons.prems [unfolded a] acc]
  have "compose_loop P argv (RArray (ms @ [a])) (Some (next_handle st)) (Some (next_handle st))
          (if prev \<noteq> None then grpc_channel_credentials_release prev (snd (new_handle st))
           else snd (new_handle st)) = (Inr (creds', m'), st')"
    by (simp add: a)
  from Cons.IH [OF this] show ?case
    by (cases "argv = []") simp_all
qed

lemma compose_loop_objects:
  "compose_loop P argv m creds prev st = (r, st') \<Longrightarrow> objects st' = objects st"
proof (induction argv arbitrary: m creds prev st)
  case Nil
  then show ?case by simp
next
  case (Cons a argv)
  show ?case
  proof (cases "\<exists>c. a = RCallCredentials c \<and> composite_accepted P creds c")
    case True
    then obtain c where a: "a = RCallCredentials c" and acc: "composite_accepted P creds c"
      by blast
    define st2 where "st2 =
      (if prev \<noteq> None then grpc_channel_credentials_release prev (snd (new_handle st))
       else snd (new_handle st))"
    from compose_loop_accepted [OF Cons.prems [unfolded a] acc]
    have "compose_loop P argv (rb_ary_push m (RCallCredentials c)) (Some (next_handle st))
            (Some (next_handle st)) st2 = (r, st')"
      by (simp add: st2_def)
    from Cons.IH [OF this] world_after_step(1) [OF st2_def] show ?thesis
      by simp
  next
    case False
    with Cons.prems show ?thesis
      by (cases a; cases prev)
        (auto simp add: grpc_composite_channel_credentials_create_def
          grpc_channel_credentials_release_def)
  qed
qed

lemma compose_loop_first_refusal:
  assumes "map grpc_rb_get_wrapped_call_credentials argv = map Inr others"
    and "k < length argv"
    and "\<forall>j < k. composite_accepted P
           (if j = 0 then creds else Some (next_handle st + j - 1)) (others ! j)"
    and "\<not> composite_accepted P
           (if k = 0 then creds else Some (next_handle st + k - 1)) (others ! k)"
  shows "fst (compose_loop P argv m creds prev st) = Inl CompositionFailed
         \<and> next_handle (snd (compose_loop P argv m creds prev st)) = next_handle st + k"
  using assms
proof (induction argv arbitrary: others k m creds prev st)
  case Nil
  then show ?case by simp
next
  case (Cons a argv)
  from Cons.prems(1) obtain c os where others: "others = c # os"
    and a: "grpc_rb_get_wrapped_call_credentials a = Inr c"
    and rest: "map grpc_rb_get_wrapped_call_credentials argv = map Inr os"
    by (cases others) auto
  from a have a': "a = RCallCredentials c"
    by (cases a) simp_all
  show ?case
  proof (cases k)
    case 0
    with Cons.prems(4) others have "\<not> composite_accepted P creds c"
      by simp
    then show ?thesis
      unfolding a' 0
      by (cases prev)
        (simp_all add: grpc_composite_channel_credentials_create_def
          grpc_channel_credentials_release_def)
  next
    case (Suc k')
    from Cons.prems(3) Suc others have acc: "composite_accepted P creds c"
      by auto
    define st2 where "st2 =
      (if prev \<noteq> None then grpc_channel_credentials_release prev (snd (new_handle st))
       else snd (new_handle st))"
    note st2 = world_after_step [OF st2_def]
    obtain r st' where run: "compose_loop P (RCallCredentials c # argv) m creds prev st = (r, st')"
      by (cases "compose_loop P (RCallCredentials c # argv) m creds prev st")
    from compose_loop_accepted [OF run acc]
    have step: "compose_loop P argv (rb_ary_push m (RCallCredentials c)) (Some (next_handle st))
                  (Some (next_handle st)) st2 = (r, st')"
      by (simp add: st2_def)
    have k': "k' < length argv"
      using Cons.prems(2) Suc by simp
    have before: "\<forall>j < k'. composite_accepted P
           (if j = 0 then Some (next_handle st) else Some (next_handle st2 + j - 1)) (os ! j)"
    proof (intro allI impI)
      fix j assume "j < k'"
      then have "Suc j < k" using Suc by simp
      with Cons.prems(3) have "composite_accepted P
           (if Suc j = 0 then creds else Some (next_handle st + Suc j - 1)) (others ! Suc j)"
        by blast
      then show "composite_accepted P
           (if j = 0 then Some (next_handle st) else Some (next_handle st2 + j - 1)) (os ! j)"
        by (cases j) (simp_all add: others st2(3))
    qed
    have at: "\<not> composite_accepted P
           (if k' = 0 then Some (next_handle st) else Some (next_handle st2 + k' - 1)) (os ! k')"
      using Cons.prems(4) by (cases k') (simp_all add: others st2(3) Suc)
    from Cons.IH [OF rest k' before at, of "rb_ary_push m (RCallCredentials c)"
        "Some (next_handle st)"]
    show ?thesis
      unfolding a' run
      by (simp add: step st2(3) Suc)
  qed
qed

lemma unwrapped_call_credentials:
  assumes "map grpc_rb_get_wrapped_call_credentials argv = map Inr others"
  shows "\<forall>a \<in> set argv. rb_class_of a = cCallCredentials"
proof
  fix a assume "a \<in> set argv"
  then have "grpc_rb_get_wrapped_call_credentials a
               \<in> set (map grpc_rb_get_wrapped_call_credentials argv)"
    by simp
  with assms obtain c where "grpc_rb_get_wrapped_call_credentials a = Inr c"
    by auto
  then show "rb_class_of a = cCallCredentials"
    by (cases a) simp_all
qed

text \<open>
  Claim C4. Let the base be an owner and the extras call credentials, and let the
  provider accept the first \<open>k\<close> compositions and refuse the next one. Then the operation
  fails with CompositionFailed; the \<open>k\<close> handles handed out during the call have all
  been released, each once and in order, and none is alive; every handle that was alive
  before is still alive; no owner has changed; neither the base's handle nor a live
  handle of an extra was released.
\<close>

theorem failed_composition_releases_intermediates:
  assumes "wf_world st"
    and "TypedData_Get_Struct st self = Inr i"
    and "map grpc_rb_get_wrapped_call_credentials argv = map Inr others"
    and "k < length argv"
    and "\<forall>j < k. composite_accepted P
           (if j = 0 then wrapped (data (objects st ! i)) else Some (next_handle st + j - 1))
           (others ! j)"
    and "\<not> composite_accepted P
           (if k = 0 then wrapped (data (objects st ! i)) else Some (next_handle st + k - 1))
           (others ! k)"
    and "grpc_rb_channel_credentials_compose P argv self st = (r, st')"
  shows "r = Inl CompositionFailed
         \<and> next_handle st' = next_handle st + k
         \<and> released st' = released st @ [next_handle st ..< next_handle st + k]
         \<and> (\<forall>h \<in> set [next_handle st ..< next_handle st + k]. h \<notin> live st')
         \<and> live st' = live st
         \<and> objects st' = objects st
         \<and> (\<forall>h \<in> set_option (wrapped (data (objects st' ! i))).
               h \<notin> set [next_handle st ..< next_handle st + k])
         \<and> (\<forall>c \<in> set others. \<forall>h \<in> set_option c.
               h \<in> live st \<longrightarrow> h \<in> live st' \<and> h \<notin> set [next_handle st ..< next_handle st + k])"
proof -
  from assms(4) have ne: "argv \<noteq> []"
    by auto
  have w: "grpc_rb_get_wrapped_channel_credentials st self = Inr (wrapped (data (objects st ! i)))"
    using assms(2) by (simp add: grpc_rb_get_wrapped_channel_credentials_def)
  obtain lr st1 where loop: "compose_loop P argv (rb_ary_push rb_ary_new self)
                (wrapped (data (objects st ! i))) None st = (lr, st1)"
    by (cases "compose_loop P argv (rb_ary_push rb_ary_new self)
                (wrapped (data (objects st ! i))) None st")
  from compose_loop_first_refusal [OF assms(3,4,5,6), of "rb_ary_push rb_ary_new self" None] loop
  have lr: "lr = Inl CompositionFailed" and n: "next_handle st1 = next_handle st + k"
    by simp_all
  from assms(7) ne w loop lr have r: "r = Inl CompositionFailed" and st': "st' = st1"
    by (simp_all add: grpc_rb_channel_credentials_compose_def)
  note f = compose_loop_failure [OF loop [unfolded lr] unwrapped_call_credentials [OF assms(3)]]
  from f have o: "objects st1 = objects st" by simp
  from f n have rel: "released st1 = released st @ [next_handle st ..< next_handle st + k]"
    by simp
  from f n have l: "live st1 = live st - {next_handle st ..< next_handle st + k}" by simp
  from assms(1) have below: "\<forall>h \<in> live st. h < next_handle st"
    by (simp add: wf_world_def)
  from l below have l': "live st1 = live st"
    by auto
  from l have fresh: "\<forall>h \<in> set [next_handle st ..< next_handle st + k]. h \<notin> live st1"
    by simp
  have i: "i < length (objects st)"
    using assms(2) by (cases self) (simp_all split: if_splits)
  then have "objects st ! i \<in> set (objects st)"
    by simp
  with assms(1) have "\<forall>h \<in> set_option (wrapped (data (objects st ! i))). h < next_handle st"
    unfolding wf_world_def by blast
  then have base: "\<forall>h \<in> set_option (wrapped (data (objects st1 ! i))).
               h \<notin> set [next_handle st ..< next_handle st + k]"
    unfolding o by auto
  from below l' have extras: "\<forall>c \<in> set others. \<forall>h \<in> set_option c.
      h \<in> live st \<longrightarrow> h \<in> live st1 \<and> h \<notin> set [next_handle st ..< next_handle st + k]"
    by auto
  from r n rel fresh l' o base extras show ?thesis
    unfolding st' by blast
qed

text \<open>
  Witness for C4: the owner holds handle 0 and the call credentials hold handles 1 and 2;
  the provider accepts the first composition (handle 3) and refuses the second. Handle 3
  is released and the handles 0, 1 and 2 stay alive.
\<close>

theorem failed_composition_example:
  "wf_world owner_and_call_credentials
   \<and> TypedData_Get_Struct owner_and_call_credentials (RData 0) = Inr 0
   \<and> composite_accepted (provider_refusing_on 3) (Some 0) (Some 1)
   \<and> \<not> composite_accepted (provider_refusing_on 3) (Some 3) (Some 2)
   \<and> fst failing_composition = Inl CompositionFailed
   \<and> next_handle (snd failing_composition) = 4
   \<and> released (snd failing_composition) = [3]
   \<and> live (snd failing_composition) = {0, 1, 2}
   \<and> wrapped (data (objects (snd failing_composition) ! 0)) = Some 0"
proof -
  have wf: "wf_world owner_and_call_credentials"
    by (simp add: wf_world_def owner_and_call_credentials_def)
  have self: "TypedData_Get_Struct owner_and_call_credentials (RData 0) = Inr 0"
    by (simp add: owner_and_call_credentials_def)
  have extras: "map grpc_rb_get_wrapped_call_credentials
                  [RCallCredentials (Some 1), RCallCredentials (Some 2)]
                = map Inr [Some 1, Some 2]"
    by simp
  have k: "(1::nat) < length [RCallCredentials (Some 1), RCallCredentials (Some 2)]"
    by simp
  have acc: "composite_accepted (provider_refusing_on 3) (Some 0) (Some 1)"
    by (simp add: provider_refusing_on_def)
  have before: "\<forall>j < (1::nat). composite_accepted (provider_refusing_on 3)
      (if j = 0 then wrapped (data (objects owner_and_call_credentials ! 0))
       else Some (next_handle owner_and_call_credentials + j - 1))
      ([Some 1, Some 2] ! j)"
    using acc by (simp add: owner_and_call_credentials_def)
  have ref: "\<not> composite_accepted (provider_refusing_on 3) (Some 3) (Some 2)"
    by (simp add: provider_refusing_on_def)
  have refused: "\<not> composite_accepted (provider_refusing_on 3)
      (if (1::nat) = 0 then wrapped (data (objects owner_and_call_credentials ! 0))
       else Some (next_handle owner_and_call_credentials + 1 - 1))
      ([Some 1, Some 2] ! 1)"
    using ref by (simp add: owner_and_call_credentials_def)
  have run: "grpc_rb_channel_credentials_compose (provider_refusing_on 3)
       [RCallCredentials (Some 1), RCallCredentials (Some 2)] (RData 0)
       owner_and_call_credentials = (fst failing_composition, snd failing_composition)"
    by (simp add: failing_composition_def)
  from failed_composition_releases_intermediates [OF wf self extras k before refused run]
  have "fst failing_composition = Inl CompositionFailed
   \<and> next_handle (snd failing_composition) = 4
   \<and> released (snd failing_composition) = [3]
   \<and> live (snd failing_composition) = {0, 1, 2}
   \<and> wrapped (data (objects (snd failing_composition) ! 0)) = Some 0"
    by (simp add: owner_and_call_credentials_def)
  with wf self acc ref show ?thesis
    by simp
qed

lemma rb_ivar_set_objects:
  assumes "i < length (objects st)"
  shows "length (objects (rb_ivar_set i name v st)) = length (objects st)"
    and "ivars (objects (rb_ivar_set i name v st) ! i) =
           (name, v) # filter (\<lambda>kv. fst kv \<noteq> name) (ivars (objects st ! i))"
    and "data (objects (rb_ivar_set i name v st) ! i) = data (objects st ! i)"
  using assms by (simp_all add: rb_ivar_set_def)

lemma update_struct_objects:
  assumes "i < length (objects st)"
  shows "length (objects (update_struct i f st)) = length (objects st)"
    and "ivars (objects (update_struct i f st) ! i) = ivars (objects st ! i)"
    and "data (objects (update_struct i f st) ! i) = f (data (objects st ! i))"
  using assms by (simp_all add: update_struct_def)

lemma init_create_credentials_objects:
  assumes "init_create_credentials P roots key chain vp st = (r, st')"
  shows "objects st' = objects st"
  using assms
  by (auto simp add: init_create_credentials_def grpc_ssl_credentials_create_def new_handle_def
      split: if_splits sum.splits)

lemma init_verify_peer_options_objects:
  assumes "init_verify_peer_options options_hash i st = (Inr vp, st')"
    and "i < length (objects st)"
  shows "length (objects st') = length (objects st)"
    and "options_hash \<noteq> Qnil \<Longrightarrow> rb_hash_aref options_hash (RString ''checkServerIdentity'') = Inr cbv
         \<Longrightarrow> cbv \<noteq> Qnil \<Longrightarrow> (id_check_server_identity_cb, cbv) \<in> set (ivars (objects st' ! i))"
  using assms
  by (auto simp add: init_verify_peer_options_def rb_str_new2_def rb_ivar_set_objects Let_def
      split: if_splits sum.splits)

lemma kept_alive_ivar:
  "(name, v) \<in> set (ivars obj) \<Longrightarrow> v \<in> kept_alive obj"
  by (force simp add: kept_alive_def)

lemma kept_alive_mark:
  "mark (data obj) = RArray xs \<Longrightarrow> x \<in> set xs \<Longrightarrow> x \<in> kept_alive obj"
  by (simp add: kept_alive_def grpc_rb_channel_credentials_mark_def)

lemma init_success:
  assumes "grpc_rb_channel_credentials_init P argv self st = (Inr r, st')"
    and "rb_scan_args_04 argv = Inr (roots, key, chain, options_hash)"
  shows "\<exists>i. r = RData i \<and> self = RData i \<and> i < length (objects st')
           \<and> roots \<in> kept_alive (objects st' ! i)
           \<and> key \<in> kept_alive (objects st' ! i)
           \<and> chain \<in> kept_alive (objects st' ! i)
           \<and> (\<forall>cbv. options_hash \<noteq> Qnil
                 \<and> rb_hash_aref options_hash (RString ''checkServerIdentity'') = Inr cbv
                 \<and> cbv \<noteq> Qnil \<longrightarrow> cbv \<in> kept_alive (objects st' ! i))"
proof -
  from assms obtain i where self: "TypedData_Get_Struct st self = Inr i"
    by (cases "TypedData_Get_Struct st self")
      (simp_all add: grpc_rb_channel_credentials_init_def)
  then have selfi: "self = RData i" and i: "i < length (objects st)"
    by (cases self; simp split: if_splits)+
  from assms self obtain cstr where
    cstr: "(if roots \<noteq> Qnil then map_sum id Some (RSTRING_PTR roots) else Inr None) = Inr cstr"
    by (cases "(if roots \<noteq> Qnil then map_sum id Some (RSTRING_PTR roots) else Inr None)")
      (simp_all add: grpc_rb_channel_credentials_init_def)
  obtain rv st1 where vp0: "init_verify_peer_options options_hash i st = (rv, st1)"
    by (cases "init_verify_peer_options options_hash i st")
  with assms self cstr obtain vp where vp: "init_verify_peer_options options_hash i st = (Inr vp, st1)"
    by (cases rv) (simp_all add: grpc_rb_channel_credentials_init_def)
  obtain rc st2 where cr0: "init_create_credentials P cstr key chain vp st1 = (rc, st2)"
    by (cases "init_create_credentials P cstr key chain vp st1")
  with assms self cstr vp obtain creds where
    cr: "init_create_credentials P cstr key chain vp st1 = (Inr creds, st2)"
    by (cases rc) (simp_all add: grpc_rb_channel_credentials_init_def)
  from assms self cstr vp cr have res: "r = self"
    and st': "st' = rb_ivar_set i id_pem_root_certs roots
                  (rb_ivar_set i id_pem_private_key key
                    (rb_ivar_set i id_pem_cert_chain chain
                      (update_struct i (\<lambda>w. w\<lparr>wrapped := creds\<rparr>) st2)))"
    by (simp_all add: grpc_rb_channel_credentials_init_def split: if_splits)
  note o1 = init_verify_peer_options_objects [OF vp i]
  note o2 = init_create_credentials_objects [OF cr]
  have i2: "i < length (objects st2)"
    using i o1(1) o2 by simp
  define sa where "sa = update_struct i (\<lambda>w. w\<lparr>wrapped := creds\<rparr>) st2"
  define sb where "sb = rb_ivar_set i id_pem_cert_chain chain sa"
  define sc where "sc = rb_ivar_set i id_pem_private_key key sb"
  have ia: "i < length (objects sa)"
    using i2 by (simp add: sa_def update_struct_objects)
  have ib: "i < length (objects sb)"
    using ia by (simp add: sb_def rb_ivar_set_objects)
  have ic: "i < length (objects sc)"
    using ib by (simp add: sc_def rb_ivar_set_objects)
  have st'': "st' = rb_ivar_set i id_pem_root_certs roots sc"
    by (simp add: st' sa_def sb_def sc_def)
  have len: "i < length (objects st')"
    using ic by (simp add: st'' rb_ivar_set_objects)
  have iv: "ivars (objects st' ! i) =
      (id_pem_root_certs, roots) # filter (\<lambda>kv. fst kv \<noteq> id_pem_root_certs)
        ((id_pem_private_key, key) # filter (\<lambda>kv. fst kv \<noteq> id_pem_private_key)
          ((id_pem_cert_chain, chain) # filter (\<lambda>kv. fst kv \<noteq> id_pem_cert_chain)
             (ivars (objects st2 ! i))))"
  proof -
    have "ivars (objects sa ! i) = ivars (objects st2 ! i)"
      unfolding sa_def by (rule update_struct_objects(2) [OF i2])
    moreover have "ivars (objects sb ! i) =
        (id_pem_cert_chain, chain) # filter (\<lambda>kv. fst kv \<noteq> id_pem_cert_chain)
          (ivars (objects sa ! i))"
      unfolding sb_def by (rule rb_ivar_set_objects(2) [OF ia])
    moreover have "ivars (objects sc ! i) =
        (id_pem_private_key, key) # filter (\<lambda>kv. fst kv \<noteq> id_pem_private_key)
          (ivars (objects sb ! i))"
      unfolding sc_def by (rule rb_ivar_set_objects(2) [OF ib])
    moreover have "ivars (objects st' ! i) =
        (id_pem_root_certs, roots) # filter (\<lambda>kv. fst kv \<noteq> id_pem_root_certs)
          (ivars (objects sc ! i))"
      unfolding st'' by (rule rb_ivar_set_objects(2) [OF ic])
    ultimately show ?thesis
      by (simp only:)
  qed
  have ids: "id_pem_private_key \<noteq> id_pem_root_certs" "id_pem_cert_chain \<noteq> id_pem_root_certs"
    "id_pem_cert_chain \<noteq> id_pem_private_key"
    "id_check_server_identity_cb \<noteq> id_pem_root_certs"
    "id_check_server_identity_cb \<noteq> id_pem_private_key"
    "id_check_server_identity_cb \<noteq> id_pem_cert_chain"
    by (simp_all add: id_pem_private_key_def id_pem_root_certs_def id_pem_cert_chain_def
        id_check_server_identity_cb_def)
  have r1: "(id_pem_root_certs, roots) \<in> set (ivars (objects st' ! i))"
    by (simp add: iv)
  have r2: "(id_pem_private_key, key) \<in> set (ivars (objects st' ! i))"
    by (simp add: iv ids)
  have r3: "(id_pem_cert_chain, chain) \<in> set (ivars (objects st' ! i))"
    by (simp add: iv ids)
  have r4: "cbv \<in> kept_alive (objects st' ! i)"
    if "options_hash \<noteq> Qnil"
      "rb_hash_aref options_hash (RString ''checkServerIdentity'') = Inr cbv" "cbv \<noteq> Qnil" for cbv
  proof -
    from o1(2) [OF that] have "(id_check_server_identity_cb, cbv) \<in> set (ivars (objects st2 ! i))"
      by (simp add: o2)
    then have "(id_check_server_identity_cb, cbv) \<in> set (ivars (objects st' ! i))"
      by (simp add: iv ids)
    then show ?thesis by (rule kept_alive_ivar)
  qed
  from res selfi len kept_alive_ivar [OF r1] kept_alive_ivar [OF r2] kept_alive_ivar [OF r3] r4
  show ?thesis by blast
qed

lemma compose_success:
  assumes "grpc_rb_channel_credentials_compose P extras base st = (Inr r, st')"
  shows "(extras = [] \<and> r = base)
         \<or> (\<exists>j. r = RData j \<and> j < length (objects st')
                 \<and> base \<in> kept_alive (objects st' ! j)
                 \<and> set extras \<subseteq> kept_alive (objects st' ! j))"
proof (cases "extras = []")
  case True
  with assms show ?thesis
    by (simp add: grpc_rb_channel_credentials_compose_def)
next
  case False
  from assms False obtain creds where
    creds: "grpc_rb_get_wrapped_channel_credentials st base = Inr creds"
    by (cases "grpc_rb_get_wrapped_channel_credentials st base")
      (simp_all add: grpc_rb_channel_credentials_compose_def)
  obtain lr st1 where loop0: "compose_loop P extras (RArray [base]) creds None st = (lr, st1)"
    by (cases "compose_loop P extras (RArray [base]) creds None st")
  with assms False creds obtain creds' m' where
    loop: "compose_loop P extras (RArray [base]) creds None st = (Inr (creds', m'), st1)"
    by (cases lr) (auto simp add: grpc_rb_channel_credentials_compose_def rb_ary_new_def)
  from compose_loop_success [OF loop] False obtain h where
    m': "m' = RArray (base # extras)" and h: "creds' = Some h"
    by auto
  from assms False creds loop have
    "grpc_rb_wrap_channel_credentials creds' m' st1 = (r, st')"
    by (simp add: grpc_rb_channel_credentials_compose_def rb_ary_new_def split: prod.splits)
  then have r: "r = RData (length (objects st1))"
    and st': "st' = st1\<lparr>objects := objects st1 @
               [\<lparr>data = \<lparr>mark = RArray (base # extras), wrapped = Some h\<rparr>, ivars = []\<rparr>]\<rparr>"
    unfolding h m' wrap_non_null by simp_all
  have obj: "objects st' ! length (objects st1) =
               \<lparr>data = \<lparr>mark = RArray (base # extras), wrapped = Some h\<rparr>, ivars = []\<rparr>"
    by (simp add: st')
  have "length (objects st1) < length (objects st')"
    by (simp add: st')
  moreover have "base \<in> kept_alive (objects st' ! length (objects st1))"
    unfolding obj by (rule kept_alive_mark [where xs = "base # extras"]) simp_all
  moreover have "set extras \<subseteq> kept_alive (objects st' ! length (objects st1))"
    unfolding obj
  proof
    fix x assume "x \<in> set extras"
    then show "x \<in> kept_alive \<lparr>data = \<lparr>mark = RArray (base # extras), wrapped = Some h\<rparr>, ivars = []\<rparr>"
      by (intro kept_alive_mark [where xs = "base # extras"]) simp_all
  qed
  ultimately show ?thesis
    using r by blast
qed

text \<open>
  Claim C6. An owner that the constructor has initialised keeps alive the three PEM
  arguments and, when the options hold one, the verification callback. An owner that a
  composition returns is the base itself when there was nothing to compose, and otherwise
  keeps alive the base and every call credential composed.
\<close>

theorem owners_keep_inputs_alive:
  "(grpc_rb_channel_credentials_init P argv self st = (Inr r, st')
      \<and> rb_scan_args_04 argv = Inr (roots, key, chain, options_hash)
    \<longrightarrow> (\<exists>i. r = RData i \<and> self = RData i \<and> i < length (objects st')
           \<and> roots \<in> kept_alive (objects st' ! i)
           \<and> key \<in> kept_alive (objects st' ! i)
           \<and> chain \<in> kept_alive (objects st' ! i)
           \<and> (\<forall>cbv. options_hash \<noteq> Qnil
                 \<and> rb_hash_aref options_hash (RString ''checkServerIdentity'') = Inr cbv
                 \<and> cbv \<noteq> Qnil \<longrightarrow> cbv \<in> kept_alive (objects st' ! i))))
   \<and> (grpc_rb_channel_credentials_compose P extras base st = (Inr r, st')
    \<longrightarrow> (extras = [] \<and> r = base)
         \<or> (\<exists>j. r = RData j \<and> j < length (objects st')
                 \<and> base \<in> kept_alive (objects st' ! j)
                 \<and> set extras \<subseteq> kept_alive (objects st' ! j)))"
  using init_success compose_success by blast

lemma constructed_value:
  "fst constructed = Inr (RData 0)"
  by (simp add: constructed_def one_allocated_def grpc_rb_channel_credentials_alloc_def
      Init_grpc_channel_credentials_def grpc_rb_channel_credentials_init_def
      rb_scan_args_04_def numeral_2_eq_2 numeral_3_eq_3 init_verify_peer_options_def
      rb_str_new2_def rb_ivar_set_def init_create_credentials_def accepting_provider_def
      grpc_ssl_credentials_create_def new_handle_def Let_def)

lemma composed_value:
  "fst composed = Inr (RData 1)"
  by (simp add: composed_def grpc_rb_channel_credentials_compose_def
      grpc_rb_get_wrapped_channel_credentials_def one_owner_def accepting_provider_def
      rb_ary_new_def grpc_composite_channel_credentials_create_def new_handle_def
      grpc_rb_wrap_channel_credentials_def grpc_rb_channel_credentials_alloc_def
      update_struct_def Let_def)

text \<open>
  Witness for C6: a construction with three PEM texts and a callback, and the composition
  of an owner with one call credential.
\<close>

theorem owners_keep_inputs_alive_example:
  "fst constructed = Inr (RData 0)
   \<and> {RString ''ROOTS'', RString ''KEY'', RString ''CHAIN'', RProc 0}
        \<subseteq> kept_alive (objects (snd constructed) ! 0)
   \<and> fst composed = Inr (RData 1)
   \<and> {RData 0, RCallCredentials (Some 7)} \<subseteq> kept_alive (objects (snd composed) ! 1)"
proof -
  have c: "grpc_rb_channel_credentials_init accepting_provider
       [RString ''ROOTS'', RString ''KEY'', RString ''CHAIN'',
        RHash [(RString ''checkServerIdentity'', RProc 0)]]
       (RData 0) one_allocated = (Inr (RData 0), snd constructed)"
    using constructed_value by (simp add: constructed_def prod_eq_iff)
  have a: "rb_scan_args_04 [RString ''ROOTS'', RString ''KEY'', RString ''CHAIN'',
        RHash [(RString ''checkServerIdentity'', RProc 0)]]
      = Inr (RString ''ROOTS'', RString ''KEY'', RString ''CHAIN'',
             RHash [(RString ''checkServerIdentity'', RProc 0)])"
    by (simp add: rb_scan_args_04_def numeral_2_eq_2 numeral_3_eq_3)
  have d: "grpc_rb_channel_credentials_compose accepting_provider
       [RCallCredentials (Some 7)] (RData 0) one_owner = (Inr (RData 1), snd composed)"
    using composed_value by (simp add: composed_def prod_eq_iff)
  from owners_keep_inputs_alive [of accepting_provider
      "[RString ''ROOTS'', RString ''KEY'', RString ''CHAIN'',
        RHash [(RString ''checkServerIdentity'', RProc 0)]]" "RData 0" one_allocated
      "RData 0" "snd constructed" "RString ''ROOTS''" "RString ''KEY''" "RString ''CHAIN''"
      "RHash [(RString ''checkServerIdentity'', RProc 0)]"] c a
  have 1: "{RString ''ROOTS'', RString ''KEY'', RString ''CHAIN'', RProc 0}
        \<subseteq> kept_alive (objects (snd constructed) ! 0)"
    by simp
  from owners_keep_inputs_alive [of accepting_provider _ _ one_owner "RData 1" "snd composed"
      _ _ _ _ "[RCallCredentials (Some 7)]" "RData 0"] d
  have 2: "{RData 0, RCallCredentials (Some 7)} \<subseteq> kept_alive (objects (snd composed) ! 1)"
    by simp
  from constructed_value composed_value 1 2 show ?thesis
    by simp
qed

section \<open>An invariant of the public operations\<close>

text \<open>
  \<open>wf_world\<close> holds when the extension has been loaded and every public operation keeps
  it, whatever the operation returns or raises.
\<close>

lemma wf_world_Init: "wf_world Init_grpc_channel_credentials"
  by (simp add: wf_world_def Init_grpc_channel_credentials_def)

lemma in_set_update:
  assumes "x \<in> set (xs[i := y])"
  shows "x = y \<or> x \<in> set xs"
  using assms set_update_subset_insert [of xs i y] by auto

lemma wf_world_alloc:
  assumes "wf_world st"
  shows "wf_world (snd (grpc_rb_channel_credentials_alloc cls st))"
  using assms by (auto simp add: wf_world_def grpc_rb_channel_credentials_alloc_def)

lemma wf_world_rb_ivar_set:
  assumes "wf_world st"
  shows "wf_world (rb_ivar_set i name v st)"
proof (cases "i < length (objects st)")
  case False
  with assms show ?thesis by (simp add: rb_ivar_set_def)
next
  case True
  then have mem: "objects st ! i \<in> set (objects st)"
    by simp
  show ?thesis
    unfolding wf_world_def
  proof (intro conjI ballI)
    fix h assume "h \<in> live (rb_ivar_set i name v st)"
    with assms show "h < next_handle (rb_ivar_set i name v st)"
      by (simp add: wf_world_def rb_ivar_set_def split: if_splits)
  next
    fix obj h
    assume obj: "obj \<in> set (objects (rb_ivar_set i name v st))"
      and h: "h \<in> set_option (wrapped (data obj))"
    from obj True have "data obj = data (objects st ! i) \<or> obj \<in> set (objects st)"
      by (auto simp add: rb_ivar_set_def dest!: in_set_update)
    with h mem assms have "h < next_handle st"
      unfolding wf_world_def by metis
    then show "h < next_handle (rb_ivar_set i name v st)"
      by (simp add: rb_ivar_set_def)
  qed
qed

lemma wf_world_update_struct:
  assumes "wf_world st"
    and "\<forall>h \<in> set_option (wrapped (f (data (objects st ! i)))). h < next_handle st"
  shows "wf_world (update_struct i f st)"
proof (cases "i < length (objects st)")
  case False
  with assms show ?thesis by (simp add: update_struct_def)
next
  case True
  show ?thesis
    unfolding wf_world_def
  proof (intro conjI ballI)
    fix h assume "h \<in> live (update_struct i f st)"
    with assms show "h < next_handle (update_struct i f st)"
      by (simp add: wf_world_def update_struct_def split: if_splits)
  next
    fix obj h
    assume obj: "obj \<in> set (objects (update_struct i f st))"
      and h: "h \<in> set_option (wrapped (data obj))"
    from obj True have "data obj = f (data (objects st ! i)) \<or> obj \<in> set (objects st)"
      by (auto simp add: update_struct_def dest!: in_set_update)
    with h assms have "h < next_handle st"
      unfolding wf_world_def by metis
    then show "h < next_handle (update_struct i f st)"
      by (simp add: update_struct_def)
  qed
qed

lemma wf_world_new_handle:
  assumes "wf_world st"
  shows "wf_world (snd (new_handle st))"
  using assms by (auto simp add: wf_world_def new_handle_def less_Suc_eq)

lemma wf_world_release:
  assumes "wf_world st"
  shows "wf_world (grpc_channel_credentials_release c st)"
  using assms
  by (cases c) (auto simp add: wf_world_def grpc_channel_credentials_release_def)

lemma wf_world_set_default_roots_pem:
  assumes "wf_world st"
  shows "wf_world (snd (grpc_rb_set_default_roots_pem self roots st))"
  using assms
  by (auto simp add: wf_world_def grpc_rb_set_default_roots_pem_def Let_def split: sum.splits)

lemma wf_world_init_verify_peer_options:
  assumes "wf_world st"
  shows "wf_world (snd (init_verify_peer_options options_hash i st))"
  using assms
  by (simp add: init_verify_peer_options_def wf_world_rb_ivar_set Let_def split: sum.splits)

lemma wf_world_ssl_credentials_create:
  assumes "wf_world st"
    and "grpc_ssl_credentials_create P roots pair vp st = (c, st')"
  shows "wf_world st' \<and> (\<forall>h \<in> set_option c. h < next_handle st')"
proof (cases "ssl_credentials_accepted P roots pair vp")
  case True
  with assms(2) have "st' = snd (new_handle st)" "c = Some (next_handle st)"
    by (auto simp add: grpc_ssl_credentials_create_def new_handle_def)
  with wf_world_new_handle [OF assms(1)] show ?thesis
    by (simp add: new_handle_def)
next
  case False
  with assms show ?thesis
    by (simp add: grpc_ssl_credentials_create_def)
qed

lemma wf_world_init_create_credentials:
  assumes "wf_world st"
    and "init_create_credentials P roots key chain vp st = (r, st')"
  shows "wf_world st' \<and> (\<forall>c. r = Inr c \<longrightarrow> (\<forall>h \<in> set_option c. h < next_handle st'))"
proof (cases "key = Qnil \<and> chain = Qnil")
  case True
  obtain c st1 where c: "grpc_ssl_credentials_create P roots None vp st = (c, st1)"
    by (cases "grpc_ssl_credentials_create P roots None vp st")
  with assms(2) True have "r = Inr c" "st' = st1"
    by (simp_all add: init_create_credentials_def)
  with wf_world_ssl_credentials_create [OF assms(1) c] show ?thesis
    by simp
next
  case False
  show ?thesis
  proof (cases "\<exists>k c. RSTRING_PTR key = Inr k \<and> RSTRING_PTR chain = Inr c")
    case True
    then obtain k ch where k: "RSTRING_PTR key = Inr k" and ch: "RSTRING_PTR chain = Inr ch"
      by blast
    obtain c st1 where c: "grpc_ssl_credentials_create P roots
        (Some \<lparr>private_key = Some k, cert_chain = Some ch\<rparr>) vp st = (c, st1)"
      by (cases "grpc_ssl_credentials_create P roots
        (Some \<lparr>private_key = Some k, cert_chain = Some ch\<rparr>) vp st")
    with assms(2) False k ch have "r = Inr c" "st' = st1"
      by (simp_all add: init_create_credentials_def)
    with wf_world_ssl_credentials_create [OF assms(1) c] show ?thesis
      by simp
  next
    case undefined: False
    with assms False show ?thesis
      by (auto simp add: init_create_credentials_def split: sum.splits)
  qed
qed

lemma wf_world_init:
  assumes "wf_world st"
  shows "wf_world (snd (grpc_rb_channel_credentials_init P argv self st))"
proof (cases "rb_scan_args_04 argv")
  case (Inl e)
  with assms show ?thesis
    by (simp add: grpc_rb_channel_credentials_init_def)
next
  case (Inr args)
  then obtain roots key chain options_hash where
    args: "rb_scan_args_04 argv = Inr (roots, key, chain, options_hash)"
    by (cases args) auto
  show ?thesis
  proof (cases "TypedData_Get_Struct st self")
    case (Inl e)
    with assms args show ?thesis
      by (simp add: grpc_rb_channel_credentials_init_def)
  next
    case self: (Inr i)
    show ?thesis
    proof (cases "if roots \<noteq> Qnil then map_sum id Some (RSTRING_PTR roots) else Inr None")
      case (Inl e)
      with assms args self show ?thesis
        by (simp add: grpc_rb_channel_credentials_init_def)
    next
      case cstr: (Inr cstr)
      obtain rv st1 where vp: "init_verify_peer_options options_hash i st = (rv, st1)"
        by (cases "init_verify_peer_options options_hash i st")
      from wf_world_init_verify_peer_options [OF assms, of options_hash i] vp
      have wf1: "wf_world st1" by simp
      show ?thesis
      proof (cases rv)
        case (Inl e)
        with args self cstr vp wf1 show ?thesis
          by (simp add: grpc_rb_channel_credentials_init_def)
      next
        case vpr: (Inr vp_options)
        obtain rc st2 where cr: "init_create_credentials P cstr key chain vp_options st1 = (rc, st2)"
          by (cases "init_create_credentials P cstr key chain vp_options st1")
        note wf2 = wf_world_init_create_credentials [OF wf1 cr]
        show ?thesis
        proof (cases rc)
          case (Inl e)
          with args self cstr vp vpr cr wf2 show ?thesis
            by (simp add: grpc_rb_channel_credentials_init_def)
        next
          case creds: (Inr creds)
          show ?thesis
          proof (cases "creds = None")
            case True
            with args self cstr vp vpr cr creds wf2 show ?thesis
              by (simp add: grpc_rb_channel_credentials_init_def)
          next
            case False
            then obtain h where h: "creds = Some h"
              by auto
            from wf2 creds have "\<forall>h \<in> set_option creds. h < next_handle st2"
              by simp
            then have "wf_world (update_struct i (\<lambda>w. w\<lparr>wrapped := creds\<rparr>) st2)"
              using wf2 by (intro wf_world_update_struct) simp_all
            then have "wf_world (rb_ivar_set i id_pem_root_certs roots
                  (rb_ivar_set i id_pem_private_key key
                    (rb_ivar_set i id_pem_cert_chain chain
                      (update_struct i (\<lambda>w. w\<lparr>wrapped := creds\<rparr>) st2))))"
              by (intro wf_world_rb_ivar_set)
            with args self cstr vp vpr cr creds h show ?thesis
              by (simp add: grpc_rb_channel_credentials_init_def)
          qed
        qed
      qed
    qed
  qed
qed

lemma wf_world_compose_loop:
  assumes "wf_world st"
    and "\<forall>h \<in> set_option creds. h < next_handle st"
    and "compose_loop P argv m creds prev st = (r, st')"
  shows "wf_world st' \<and> (\<forall>c m'. r = Inr (c, m') \<longrightarrow> (\<forall>h \<in> set_option c. h < next_handle st'))"
  using assms
proof (induction argv arbitrary: m creds prev st)
  case Nil
  then show ?case by auto
next
  case (Cons a argv)
  show ?case
  proof (cases "\<exists>c. a = RCallCredentials c \<and> composite_accepted P creds c")
    case True
    then obtain c where a: "a = RCallCredentials c" and acc: "composite_accepted P creds c"
      by blast
    define st2 where "st2 =
      (if prev \<noteq> None then grpc_channel_credentials_release prev (snd (new_handle st))
       else snd (new_handle st))"
    have wf2: "wf_world st2"
      unfolding st2_def
      using wf_world_new_handle [OF Cons.prems(1)]
      by (simp add: wf_world_release)
    have n2: "\<forall>h \<in> set_option (Some (next_handle st)). h < next_handle st2"
      using world_after_step(3) [OF st2_def] by simp
    from compose_loop_accepted [OF Cons.prems(3) [unfolded a] acc]
    have "compose_loop P argv (rb_ary_push m (RCallCredentials c)) (Some (next_handle st))
            (Some (next_handle st)) st2 = (r, st')"
      by (simp add: st2_def)
    from Cons.IH [OF wf2 n2 this] show ?thesis .
  next
    case False
    have "wf_world st' \<and> (\<exists>e. r = Inl e)"
    proof (cases a)
      case (RCallCredentials c)
      with False have "\<not> composite_accepted P creds c" by simp
      with Cons.prems(3) Cons.prems(1) RCallCredentials show ?thesis
        by (cases prev)
          (auto simp add: grpc_composite_channel_credentials_create_def wf_world_release)
    qed (use Cons.prems in auto)
    then show ?thesis by auto
  qed
qed

lemma wf_world_wrap:
  assumes "wf_world st" and "\<forall>h \<in> set_option c. h < next_handle st"
  shows "wf_world (snd (grpc_rb_wrap_channel_credentials c m st))"
proof (cases c)
  case None
  with assms show ?thesis
    by (simp add: grpc_rb_wrap_channel_credentials_def)
next
  case (Some h)
  with assms show ?thesis
    unfolding Some wrap_non_null
    by (auto simp add: wf_world_def)
qed

lemma wf_world_compose:
  assumes "wf_world st"
  shows "wf_world (snd (grpc_rb_channel_credentials_compose P argv self st))"
proof (cases "argv = []")
  case True
  with assms show ?thesis
    by (simp add: grpc_rb_channel_credentials_compose_def)
next
  case False
  show ?thesis
  proof (cases "TypedData_Get_Struct st self")
    case (Inl e)
    with assms False show ?thesis
      by (simp add: grpc_rb_channel_credentials_compose_def
          grpc_rb_get_wrapped_channel_credentials_def)
  next
    case (Inr i)
    then have i: "i < length (objects st)"
      by (cases self) (simp_all split: if_splits)
    then have "objects st ! i \<in> set (objects st)"
      by simp
    with assms have base: "\<forall>h \<in> set_option (wrapped (data (objects st ! i))). h < next_handle st"
      unfolding wf_world_def by blast
    obtain r st1 where loop: "compose_loop P argv (rb_ary_push rb_ary_new self)
        (wrapped (data (objects st ! i))) None st = (r, st1)"
      by (cases "compose_loop P argv (rb_ary_push rb_ary_new self)
        (wrapped (data (objects st ! i))) None st")
    note wf1 = wf_world_compose_loop [OF assms base loop]
    show ?thesis
    proof (cases r)
      case (Inl e)
      with Inr False loop wf1 show ?thesis
        by (simp add: grpc_rb_channel_credentials_compose_def
            grpc_rb_get_wrapped_channel_credentials_def)
    next
      case res: (Inr cm)
      obtain c m where cm: "cm = (c, m)" by (cases cm)
      with wf1 res have "wf_world st1" "\<forall>h \<in> set_option c. h < next_handle st1"
        by simp_all
      from wf_world_wrap [OF this, of m] Inr False loop res cm show ?thesis
        by (auto simp add: grpc_rb_channel_credentials_compose_def
            grpc_rb_get_wrapped_channel_credentials_def split: prod.splits)
    qed
  qed
qed

section \<open>The root override and the other operations\<close>

text \<open>
  The constructor and the composition never write the static \<^verbatim>\<open>pem_root_certs\<close>:
  only \<^verbatim>\<open>set_default_roots_pem\<close> changes what the override hook reports.
\<close>

lemma static_rb_ivar_set [simp]:
  "static_pem_root_certs (rb_ivar_set i name v st) = static_pem_root_certs st"
  by (simp add: rb_ivar_set_def)

lemma static_update_struct [simp]:
  "static_pem_root_certs (update_struct i f st) = static_pem_root_certs st"
  by (simp add: update_struct_def)

lemma static_init_verify_peer_options:
  "static_pem_root_certs (snd (init_verify_peer_options options_hash i st)) = static_pem_root_certs st"
  by (simp add: init_verify_peer_options_def Let_def split: sum.splits)

lemma static_init_create_credentials:
  "static_pem_root_certs (snd (init_create_credentials P roots key chain vp st)) = static_pem_root_certs st"
  by (simp add: init_create_credentials_def grpc_ssl_credentials_create_def new_handle_def
      split: sum.splits)

lemma static_init:
  "static_pem_root_certs (snd (grpc_rb_channel_credentials_init P argv self st))
     = static_pem_root_certs st"
proof -
  have "static_pem_root_certs st2 = static_pem_root_certs st"
    if "init_verify_peer_options options_hash i st = (rv, st1)"
      "init_create_credentials P roots key chain vp st1 = (rc, st2)"
    for options_hash i rv st1 roots key chain vp rc st2
    using static_init_verify_peer_options [of options_hash i st]
      static_init_create_credentials [of P roots key chain vp st1] that
    by simp
  moreover have "static_pem_root_certs st1 = static_pem_root_certs st"
    if "init_verify_peer_options options_hash i st = (rv, st1)" for options_hash i rv st1
    using static_init_verify_peer_options [of options_hash i st] that by simp
  ultimately show ?thesis
    by (simp add: grpc_rb_channel_credentials_init_def split: sum.splits prod.splits)
qed

lemma static_compose:
  "static_pem_root_certs (snd (grpc_rb_channel_credentials_compose P argv self st))
     = static_pem_root_certs st"
proof -
  have loop: "static_pem_root_certs st1 = static_pem_root_certs st"
    if "compose_loop P argv m creds prev st = (r, st1)" for argv m creds prev r st1 st
    using that
  proof (induction argv arbitrary: m creds prev st)
    case Nil
    then show ?case by simp
  next
    case (Cons a argv)
    show ?case
    proof (cases "\<exists>c. a = RCallCredentials c \<and> composite_accepted P creds c")
      case True
      then obtain c where a: "a = RCallCredentials c" and acc: "composite_accepted P creds c"
        by blast
      define st2 where "st2 =
        (if prev \<noteq> None then grpc_channel_credentials_release prev (snd (new_handle st))
         else snd (new_handle st))"
      from compose_loop_accepted [OF Cons.prems [unfolded a] acc]
      have "compose_loop P argv (rb_ary_push m (RCallCredentials c)) (Some (next_handle st))
              (Some (next_handle st)) st2 = (r, st1)"
        by (simp add: st2_def)
      from Cons.IH [OF this] world_after_step(2) [OF st2_def] show ?thesis
        by simp
    next
      case False
      with Cons.prems show ?thesis
        by (cases a; cases prev)
          (auto simp add: grpc_composite_channel_credentials_create_def
            grpc_channel_credentials_release_def)
    qed
  qed
  have wrap: "static_pem_root_certs st2 = static_pem_root_certs st1"
    if "grpc_rb_wrap_channel_credentials c m st1 = (v, st2)" for c m st1 v st2
  proof (cases c)
    case None
    with that show ?thesis
      by (simp add: grpc_rb_wrap_channel_credentials_def)
  next
    case (Some h)
    with that show ?thesis
      unfolding Some wrap_non_null by auto
  qed
  show ?thesis
  proof (cases "grpc_rb_channel_credentials_compose P argv self st")
    case (Pair r st')
    have "static_pem_root_certs st' = static_pem_root_certs st"
    proof (cases "argv = []")
      case True
      with Pair show ?thesis
        by (simp add: grpc_rb_channel_credentials_compose_def)
    next
      case False
      show ?thesis
      proof (cases "grpc_rb_get_wrapped_channel_credentials st self")
        case (Inl e)
        with Pair False show ?thesis
          by (simp add: grpc_rb_channel_credentials_compose_def)
      next
        case (Inr creds)
        obtain lr st1 where l: "compose_loop P argv (rb_ary_push rb_ary_new self) creds None st
            = (lr, st1)"
          by (cases "compose_loop P argv (rb_ary_push rb_ary_new self) creds None st")
        note s1 = loop [OF l]
        show ?thesis
        proof (cases lr)
          case (Inl e)
          with Pair False Inr l s1 show ?thesis
            by (simp add: grpc_rb_channel_credentials_compose_def)
        next
          case res: (Inr cm)
          obtain c m where cm: "cm = (c, m)" by (cases cm)
          obtain v st2 where w: "grpc_rb_wrap_channel_credentials c m st1 = (v, st2)"
            by (cases "grpc_rb_wrap_channel_credentials c m st1")
          from Pair False Inr l res cm w have "st' = st2"
            by (simp add: grpc_rb_channel_credentials_compose_def)
          with wrap [OF w] s1 show ?thesis
            by simp
        qed
      qed
    qed
    with Pair show ?thesis by simp
  qed
qed

end
